theory Spec2Isabelle
  imports Complex_Main "HOL-Library.Sublist" "HOL-Library.Multiset"
begin

section \<open>Geometry of the shadow clones\<close>

text \<open>
  The repository holds two versions of \<^verbatim>\<open>extension.ts\<close>: \<^verbatim>\<open>src/src/extension.ts\<close> and
  \<^verbatim>\<open>src/unnamed/part_000\<close>. Where they differ, the definition taken from the second one
  carries the suffix \<open>_part0\<close>. The workspace-switch code is the same in both.

  \<open>SHADOW_PADDING\<close> (\<^verbatim>\<open>constants.SHADOW_PADDING\<close>) and the result of \<^verbatim>\<open>UI.WindowScaleFactor\<close>
  are defined outside the two files and are parameters of the model.
\<close>

subsection \<open>Numbers\<close>

text \<open>
  A JavaScript number is a real number, \<^verbatim>\<open>Infinity\<close>, \<^verbatim>\<open>-Infinity\<close> or \<^verbatim>\<open>NaN\<close>. The overview
  code divides by the width and the height of a window's frame, so the three values that
  are not real can arise there, and its arithmetic is the one of JavaScript on these four
  kinds of values. Two things are left out: rounding and overflow (the finite numbers are
  the reals), and the sign of zero (a zero divisor counts as \<open>+0\<close>, which is what the
  integer fields of a \<^verbatim>\<open>Meta.Rectangle\<close> give). The fields of a rectangle, \<open>SHADOW_PADDING\<close>
  and the scale factor are finite and are kept as reals.
\<close>

datatype number = Finite real | Infinity | MinusInfinity | NaN

text \<open>The sign of a number, and the infinity of a given sign (\<^verbatim>\<open>NaN\<close> for the sign 0).\<close>

fun sign_of :: "number \<Rightarrow> real" where
  "sign_of (Finite x) = sgn x"
| "sign_of Infinity = 1"
| "sign_of MinusInfinity = - 1"
| "sign_of NaN = 0"

definition infinity_of :: "real \<Rightarrow> number" where
  "infinity_of sg = (if 0 < sg then Infinity else if sg < 0 then MinusInfinity else NaN)"

text \<open>
  The operators \<^verbatim>\<open>-x\<close>, \<^verbatim>\<open>x + y\<close>, \<^verbatim>\<open>x - y\<close>, \<^verbatim>\<open>x * y\<close> and \<^verbatim>\<open>x / y\<close> of JavaScript. The
  clauses of each function are tried in their order. The type class that gives the
  notation \<open>x / y\<close> asks for a reciprocal too, which is \<open>1 / x\<close>.
\<close>

instantiation number :: "{uminus, plus, minus, times, inverse}"
begin

fun uminus_number :: "number \<Rightarrow> number" where
  "uminus_number (Finite x) = Finite (- x)"
| "uminus_number Infinity = MinusInfinity"
| "uminus_number MinusInfinity = Infinity"
| "uminus_number NaN = NaN"

fun plus_number :: "number \<Rightarrow> number \<Rightarrow> number" where
  "plus_number (Finite x) (Finite y) = Finite (x + y)"
| "plus_number NaN b = NaN"
| "plus_number a NaN = NaN"
| "plus_number Infinity MinusInfinity = NaN"
| "plus_number MinusInfinity Infinity = NaN"
| "plus_number Infinity b = Infinity"
| "plus_number a Infinity = Infinity"
| "plus_number MinusInfinity b = MinusInfinity"
| "plus_number a MinusInfinity = MinusInfinity"

definition minus_number :: "number \<Rightarrow> number \<Rightarrow> number" where
  "minus_number a b = a + (- b)"

fun times_number :: "number \<Rightarrow> number \<Rightarrow> number" where
  "times_number (Finite x) (Finite y) = Finite (x * y)"
| "times_number NaN b = NaN"
| "times_number a NaN = NaN"
| "times_number a b = infinity_of (sign_of a * sign_of b)"

fun divide_number :: "number \<Rightarrow> number \<Rightarrow> number" where
  "divide_number (Finite x) (Finite y) =
     (if y = 0 then infinity_of (sgn x) else Finite (x / y))"
| "divide_number NaN b = NaN"
| "divide_number a NaN = NaN"
| "divide_number (Finite x) b = Finite 0"
| "divide_number a (Finite y) = infinity_of (if y < 0 then - sign_of a else sign_of a)"
| "divide_number a b = NaN"

definition inverse_number :: "number \<Rightarrow> number" where
  "inverse_number a = divide (Finite 1) a"

instance ..

end

text \<open>\<^verbatim>\<open>Math.min\<close> of two numbers: \<^verbatim>\<open>NaN\<close> when one of them is.\<close>

fun Math_min :: "number \<Rightarrow> number \<Rightarrow> number" where
  "Math_min (Finite x) (Finite y) = Finite (min x y)"
| "Math_min NaN b = NaN"
| "Math_min a NaN = NaN"
| "Math_min MinusInfinity b = MinusInfinity"
| "Math_min a MinusInfinity = MinusInfinity"
| "Math_min Infinity b = b"
| "Math_min a Infinity = a"

subsection \<open>Rectangles, boxes and windows\<close>

text \<open>\<^verbatim>\<open>Meta.Rectangle\<close>, as returned by \<^verbatim>\<open>get_frame_rect()\<close> and \<^verbatim>\<open>get_buffer_rect()\<close>.\<close>

record rectangle =
  rect_x :: real
  rect_y :: real
  rect_width :: real
  rect_height :: real

text \<open>
  \<^verbatim>\<open>Clutter.ActorBox\<close>: two corners. \<^verbatim>\<open>set_origin\<close> moves the box and keeps its size,
  \<^verbatim>\<open>set_size\<close> moves the second corner.
\<close>

record actor_box =
  box_x1 :: number
  box_y1 :: number
  box_x2 :: number
  box_y2 :: number

definition get_width :: "actor_box \<Rightarrow> number" where
  "get_width b = box_x2 b - box_x1 b"

definition get_height :: "actor_box \<Rightarrow> number" where
  "get_height b = box_y2 b - box_y1 b"

definition set_origin :: "number \<Rightarrow> number \<Rightarrow> actor_box \<Rightarrow> actor_box" where
  "set_origin x y b =
     \<lparr>box_x1 = x, box_y1 = y, box_x2 = x + get_width b, box_y2 = y + get_height b\<rparr>"

definition set_size :: "number \<Rightarrow> number \<Rightarrow> actor_box \<Rightarrow> actor_box" where
  "set_size w h b = b\<lparr>box_x2 := box_x1 b + w, box_y2 := box_y1 b + h\<rparr>"

text \<open>What the code reads from a \<^verbatim>\<open>Meta.Window\<close>.\<close>

record meta_window =
  frame_rect :: rectangle
  buffer_rect :: rectangle
  is_attached_dialog :: bool
  WindowScaleFactor :: real

subsection \<open>\<^verbatim>\<open>OverviewShadowActor.vfunc_allocate\<close> of \<^verbatim>\<open>src/src/extension.ts\<close>\<close>

definition overview_paddings :: "real \<Rightarrow> number \<Rightarrow> meta_window \<Rightarrow> number" where
  "overview_paddings SHADOW_PADDING container_scaled meta_win =
     Finite SHADOW_PADDING * container_scaled * Finite (WindowScaleFactor meta_win)"

text \<open>
  \<open>leaving_overview\<close> chooses between the allocation box of the preview's window
  container and the one of the preview itself. The result is \<open>None\<close> when the function
  returns without allocating, and otherwise the box handed to \<^verbatim>\<open>super.vfunc_allocate\<close>.
\<close>

definition vfunc_allocate ::
  "real \<Rightarrow> bool \<Rightarrow> actor_box \<Rightarrow> actor_box \<Rightarrow> meta_window option \<Rightarrow> actor_box
     \<Rightarrow> actor_box option" where
  "vfunc_allocate SHADOW_PADDING leaving_overview container_allocation preview_allocation
       meta_win box =
     (let windowContainerBox =
            (if leaving_overview then container_allocation else preview_allocation)
      in case meta_win of
           None \<Rightarrow> None
         | Some w \<Rightarrow>
             let container_scaled =
                   get_width windowContainerBox / Finite (rect_width (frame_rect w));
                 paddings = overview_paddings SHADOW_PADDING container_scaled w;
                 box1 = set_origin (- paddings) (- paddings) box;
                 box2 = set_size (get_width windowContainerBox + Finite 2 * paddings)
                          (get_height windowContainerBox + Finite 2 * paddings) box1
             in Some box2)"

subsection \<open>\<^verbatim>\<open>OverviewShadowActor.vfunc_allocate\<close> of \<^verbatim>\<open>src/unnamed/part_000\<close>\<close>

text \<open>
  The actor the shadow follows (\<^verbatim>\<open>this._target\<close>, the clone of the window): its position,
  the window of its source actor, and the size of its parent, each absent when the
  source returns \<^verbatim>\<open>null\<close>.
\<close>

record overview_target =
  target_x :: number
  target_y :: number
  target_meta_window :: "meta_window option"
  target_parent :: "(number \<times> number) option"

definition vfunc_allocate_part0 ::
  "real \<Rightarrow> overview_target \<Rightarrow> actor_box \<Rightarrow> actor_box option" where
  "vfunc_allocate_part0 SHADOW_PADDING target box =
     (case (target_meta_window target, target_parent target) of
        (Some meta_win, Some (container_width, container_height)) \<Rightarrow>
          if is_attached_dialog meta_win then None
          else
            let frame = frame_rect meta_win;
                buf = buffer_rect meta_win;
                scale = Math_min (container_width / Finite (rect_width frame))
                                 (container_height / Finite (rect_height frame));
                paddings = overview_paddings SHADOW_PADDING scale meta_win;
                x = target_x target
                      + Finite ((rect_width buf - rect_width frame) / 2) * scale;
                y = target_y target
                      + Finite ((rect_height buf - rect_height frame) / 2) * scale;
                width = Finite (rect_width frame) * scale - x;
                height = Finite (rect_height frame) * scale - y;
                box1 = set_origin (x - paddings) (y - paddings) box;
                box2 = set_size (width + Finite 2 * paddings) (height + Finite 2 * paddings) box1
            in Some box2
      | _ \<Rightarrow> None)"

subsection \<open>The box of a shadow clone in a workspace switch\<close>

text \<open>
  What \<^verbatim>\<open>_prepareWorkspaceSwitch\<close> reads from a window record: the window actor with its
  position, its window, its shadow (\<^verbatim>\<open>__rwc_rounded_window_info?.shadow\<close>) and the
  \<^verbatim>\<open>enabled\<close> flag of its rounded-corners effect (absent when the actor has no such
  effect), and the clone with its position. Actors are numbered. This code only adds and
  multiplies, so finite positions give a finite geometry; the positions are reals.
\<close>

type_synonym actor = nat

record window_actor =
  actor_x :: real
  actor_y :: real
  metaWindow :: meta_window
  rwc_shadow :: "actor option"
  effect_enabled :: "bool option"

record window_record =
  windowActor :: window_actor
  clone :: actor
  clone_x :: real
  clone_y :: real

text \<open>The four properties the loop body sets on the new \<^verbatim>\<open>Clutter.Clone\<close>.\<close>

record geometry =
  geo_width :: real
  geo_height :: real
  geo_x :: real
  geo_y :: real

definition workspace_paddings :: "real \<Rightarrow> meta_window \<Rightarrow> real" where
  "workspace_paddings SHADOW_PADDING win = SHADOW_PADDING * WindowScaleFactor win"

definition workspace_switch_box :: "real \<Rightarrow> window_record \<Rightarrow> geometry" where
  "workspace_switch_box SHADOW_PADDING r =
     (let actor = windowActor r;
          win = metaWindow actor;
          frame = frame_rect win;
          paddings = workspace_paddings SHADOW_PADDING win
      in \<lparr>geo_width = rect_width frame + paddings * 2,
          geo_height = rect_height frame + paddings * 2,
          geo_x = clone_x r + rect_x frame - actor_x actor - paddings,
          geo_y = clone_y r + rect_y frame - actor_y actor - paddings\<rparr>)"

text \<open>The spec's \<open>overview_box\<close>, written from its words, for comparison with the code.\<close>

definition overview_box_spec :: "real \<Rightarrow> real \<Rightarrow> real \<Rightarrow> real \<Rightarrow> real \<Rightarrow> actor_box" where
  "overview_box_spec BASE_PADDING container_width container_height frame_width scale_factor =
     (let container_scale = Finite container_width / Finite frame_width;
          padding = Finite BASE_PADDING * container_scale * Finite scale_factor
      in \<lparr>box_x1 = - padding, box_y1 = - padding,
          box_x2 = - padding + (Finite container_width + Finite 2 * padding),
          box_y2 = - padding + (Finite container_height + Finite 2 * padding)\<rparr>)"


section \<open>The scene graph\<close>

text \<open>
  The children of an actor are a list, lowest first. \<^verbatim>\<open>insert_child_below(child, sibling)\<close>
  puts the new child directly under the sibling and does nothing when the sibling is
  not a child of the parent. \<^verbatim>\<open>set_child_below_sibling(child, sibling)\<close> takes a child
  out and puts it back directly under the sibling; Clutter ignores the call unless both
  are children of the parent and differ.
\<close>

fun insert_child_below :: "actor \<Rightarrow> actor \<Rightarrow> actor list \<Rightarrow> actor list" where
  "insert_child_below child sibling [] = []"
| "insert_child_below child sibling (x # xs) =
     (if x = sibling then child # x # xs else x # insert_child_below child sibling xs)"

definition set_child_below_sibling :: "actor \<Rightarrow> actor \<Rightarrow> actor list \<Rightarrow> actor list" where
  "set_child_below_sibling child sibling cs =
     (if child \<in> set cs \<and> sibling \<in> set cs \<and> child \<noteq> sibling
      then insert_child_below child sibling (removeAll child cs) else cs)"

text \<open>\<open>immediately_below a b cs\<close>: \<open>a\<close> is the child stacked directly under \<open>b\<close>.\<close>

fun immediately_below :: "actor \<Rightarrow> actor \<Rightarrow> actor list \<Rightarrow> bool" where
  "immediately_below a b (x # y # ys) = ((x = a \<and> y = b) \<or> immediately_below a b (y # ys))"
| "immediately_below a b _ = False"

section \<open>The workspace switch\<close>

text \<open>
  The closures the code connects to signals, with the variables they capture:
  the handler of \<^verbatim>\<open>restacked\<close> on \<^verbatim>\<open>global.display\<close> (it captures the workspace group),
  the handler of \<^verbatim>\<open>destroy\<close> on the workspace group (the group and the two handler ids),
  the handler of \<^verbatim>\<open>notify::translation-z\<close> on a clone (the clone and its shadow clone)
  and the handler of \<^verbatim>\<open>destroy\<close> on a clone (the clone and the two handler ids).
\<close>

datatype handler =
    Restacked actor
  | WorkspaceDestroy actor nat nat
  | NotifyTranslationZ actor actor
  | CloneDestroy actor nat nat

text \<open>
  A call the toolkit answers with a warning instead of doing it: disconnecting a handler
  id that is not connected, destroying an actor that is already destroyed.
\<close>

datatype fault = DisconnectUnknown nat | DestroyDestroyed actor

text \<open>
  The state the three patched methods of \<^verbatim>\<open>WorkspaceAnimationController\<close> work on.
  \<open>windowRecords\<close> is the \<^verbatim>\<open>_windowRecords\<close> of each workspace group, \<open>shadow_clone_of\<close>
  the \<^verbatim>\<open>_shadow_clone\<close> property the code hangs on a clone. Handler ids and new actors
  are numbered by two counters.
\<close>

record ws_state =
  children :: "actor \<Rightarrow> actor list"
  windowRecords :: "actor \<Rightarrow> window_record list"
  shadow_clone_of :: "actor \<Rightarrow> actor option"
  clone_source :: "actor \<Rightarrow> actor option"
  geometry_of :: "actor \<Rightarrow> geometry option"
  translationZ :: "actor \<Rightarrow> real"
  visible_bound :: "(actor \<times> actor) list"
  destroyed :: "actor list"
  display_handlers :: "(nat \<times> handler) list"
  actor_handlers :: "(actor \<times> nat \<times> handler) list"
  next_actor :: actor
  next_handler_id :: nat
  faults :: "fault list"

definition display_connect :: "handler \<Rightarrow> ws_state \<Rightarrow> nat \<times> ws_state" where
  "display_connect h s =
     (next_handler_id s,
      s\<lparr>display_handlers := display_handlers s @ [(next_handler_id s, h)],
        next_handler_id := Suc (next_handler_id s)\<rparr>)"

definition actor_connect :: "actor \<Rightarrow> handler \<Rightarrow> ws_state \<Rightarrow> nat \<times> ws_state" where
  "actor_connect a h s =
     (next_handler_id s,
      s\<lparr>actor_handlers := actor_handlers s @ [(a, next_handler_id s, h)],
        next_handler_id := Suc (next_handler_id s)\<rparr>)"

definition display_disconnect :: "nat \<Rightarrow> ws_state \<Rightarrow> ws_state" where
  "display_disconnect i s =
     (if i \<in> fst ` set (display_handlers s)
      then s\<lparr>display_handlers := filter (\<lambda>(j, h). j \<noteq> i) (display_handlers s)\<rparr>
      else s\<lparr>faults := faults s @ [DisconnectUnknown i]\<rparr>)"

definition actor_disconnect :: "actor \<Rightarrow> nat \<Rightarrow> ws_state \<Rightarrow> ws_state" where
  "actor_disconnect a i s =
     (if (a, i) \<in> (\<lambda>(b, j, h). (b, j)) ` set (actor_handlers s)
      then s\<lparr>actor_handlers := filter (\<lambda>(b, j, h). \<not> (b = a \<and> j = i)) (actor_handlers s)\<rparr>
      else s\<lparr>faults := faults s @ [DisconnectUnknown i]\<rparr>)"

text \<open>\<^verbatim>\<open>destroy()\<close> on an actor the code created: it leaves its parent and is gone.\<close>

definition actor_destroy :: "actor \<Rightarrow> ws_state \<Rightarrow> ws_state" where
  "actor_destroy a s =
     (if a \<in> set (destroyed s) then s\<lparr>faults := faults s @ [DestroyDestroyed a]\<rparr>
      else s\<lparr>children := (\<lambda>p. removeAll a (children s p)),
             visible_bound := filter (\<lambda>(c, sh). sh \<noteq> a) (visible_bound s),
             destroyed := a # destroyed s\<rparr>)"

subsection \<open>\<^verbatim>\<open>_prepareWorkspaceSwitch\<close>\<close>

text \<open>The body of the innermost loop, for one window record of a workspace group.\<close>

definition prepare_record :: "real \<Rightarrow> actor \<Rightarrow> window_record \<Rightarrow> ws_state \<Rightarrow> ws_state" where
  "prepare_record SHADOW_PADDING workspace r s =
     (case (rwc_shadow (windowActor r), effect_enabled (windowActor r)) of
        (Some sh, Some True) \<Rightarrow>
          let shadow_clone = next_actor s;
              s1 = s\<lparr>next_actor := Suc (next_actor s),
                     clone_source := (clone_source s)(shadow_clone := Some sh),
                     geometry_of := (geometry_of s)
                        (shadow_clone := Some (workspace_switch_box SHADOW_PADDING r))\<rparr>;
              (notify_id, s2) =
                 actor_connect (clone r) (NotifyTranslationZ (clone r) shadow_clone) s1;
              (destroy_id, s3) =
                 actor_connect (clone r)
                   (CloneDestroy (clone r) notify_id (next_handler_id s2)) s2
          in s3\<lparr>shadow_clone_of := (shadow_clone_of s3)(clone r := Some shadow_clone),
                visible_bound := visible_bound s3 @ [(clone r, shadow_clone)],
                children := (children s3)
                   (workspace := insert_child_below shadow_clone (clone r)
                                   (children s3 workspace))\<rparr>
      | _ \<Rightarrow> s)"

text \<open>The body of the middle loop, for one workspace group.\<close>

definition prepare_workspace :: "real \<Rightarrow> actor \<Rightarrow> ws_state \<Rightarrow> ws_state" where
  "prepare_workspace SHADOW_PADDING workspace s =
     (let (restacked_id, s1) = display_connect (Restacked workspace) s;
          (destroy_id, s2) =
             actor_connect workspace
               (WorkspaceDestroy workspace restacked_id (next_handler_id s1)) s1
      in fold (prepare_record SHADOW_PADDING workspace) (windowRecords s2 workspace) s2)"

text \<open>
  The patched method, from the point where the original method has returned and has
  built \<^verbatim>\<open>this._switchData\<close>: \<open>monitors\<close> lists, for each monitor, its \<^verbatim>\<open>_workspaceGroups\<close>.
\<close>

definition prepareWorkspaceSwitch :: "real \<Rightarrow> actor list list \<Rightarrow> ws_state \<Rightarrow> ws_state" where
  "prepareWorkspaceSwitch SHADOW_PADDING monitors s =
     fold (\<lambda>monitor. fold (prepare_workspace SHADOW_PADDING) monitor) monitors s"

subsection \<open>The signal handlers\<close>

text \<open>The handler of \<^verbatim>\<open>restacked\<close>: one record of the group, then all of them.\<close>

definition restack_record :: "actor \<Rightarrow> window_record \<Rightarrow> ws_state \<Rightarrow> ws_state" where
  "restack_record workspace r s =
     (case shadow_clone_of s (clone r) of
        Some sh \<Rightarrow>
          s\<lparr>children := (children s)
               (workspace := set_child_below_sibling sh (clone r) (children s workspace))\<rparr>
      | None \<Rightarrow> s)"

fun run_handler :: "handler \<Rightarrow> ws_state \<Rightarrow> ws_state" where
  "run_handler (Restacked workspace) s =
     fold (restack_record workspace) (windowRecords s workspace) s"
| "run_handler (WorkspaceDestroy workspace restacked_id destroy_id) s =
     actor_disconnect workspace destroy_id (display_disconnect restacked_id s)"
| "run_handler (NotifyTranslationZ c shadow_clone) s =
     s\<lparr>translationZ := (translationZ s)(shadow_clone := translationZ s c - 0.05)\<rparr>"
| "run_handler (CloneDestroy c notify_id destroy_id) s =
     actor_disconnect c destroy_id (actor_disconnect c notify_id s)"

text \<open>
  Emitting a signal runs the handlers that are connected when the emission starts, in the
  order of their connection; a handler that has been disconnected by the time its turn
  comes is not run. \<open>emit_restacked\<close> is \<^verbatim>\<open>restacked\<close> on the display, \<open>emit_destroy a\<close> is
  \<^verbatim>\<open>destroy\<close> on the workspace group or clone \<open>a\<close>.
\<close>

definition is_destroy_handler :: "handler \<Rightarrow> bool" where
  "is_destroy_handler h =
     (case h of WorkspaceDestroy _ _ _ \<Rightarrow> True | CloneDestroy _ _ _ \<Rightarrow> True | _ \<Rightarrow> False)"

definition run_display_handler :: "nat \<times> handler \<Rightarrow> ws_state \<Rightarrow> ws_state" where
  "run_display_handler e s =
     (if e \<in> set (display_handlers s) then run_handler (snd e) s else s)"

definition run_actor_handler :: "actor \<times> nat \<times> handler \<Rightarrow> ws_state \<Rightarrow> ws_state" where
  "run_actor_handler e s =
     (if e \<in> set (actor_handlers s) then run_handler (snd (snd e)) s else s)"

definition emit_restacked :: "ws_state \<Rightarrow> ws_state" where
  "emit_restacked s = fold run_display_handler (display_handlers s) s"

definition emit_destroy :: "actor \<Rightarrow> ws_state \<Rightarrow> ws_state" where
  "emit_destroy a s =
     fold run_actor_handler
       (filter (\<lambda>(b, i, h). b = a \<and> is_destroy_handler h) (actor_handlers s)) s"

subsection \<open>\<^verbatim>\<open>_finishWorkspaceSwitch\<close>\<close>

text \<open>The body of the innermost loop: \<^verbatim>\<open>_shadow_clone?.destroy()\<close>, then \<^verbatim>\<open>delete\<close>.\<close>

definition finish_record :: "window_record \<Rightarrow> ws_state \<Rightarrow> ws_state" where
  "finish_record r s =
     (let s1 = (case shadow_clone_of s (clone r) of
                  Some sh \<Rightarrow> actor_destroy sh s
                | None \<Rightarrow> s)
      in s1\<lparr>shadow_clone_of := (shadow_clone_of s1)(clone r := None)\<rparr>)"

definition finish_workspace :: "actor \<Rightarrow> ws_state \<Rightarrow> ws_state" where
  "finish_workspace workspace s = fold finish_record (windowRecords s workspace) s"

text \<open>The three loops of the patched method, over the monitors, the groups and the records.\<close>

definition finish_loops :: "actor list list \<Rightarrow> ws_state \<Rightarrow> ws_state" where
  "finish_loops monitors s = fold (\<lambda>monitor. fold finish_workspace monitor) monitors s"

text \<open>
  The patched method: the three loops, then the original method \<open>orig\<close> of the shell on
  the state they leave.
\<close>

definition finishWorkspaceSwitch ::
  "(ws_state \<Rightarrow> ws_state) \<Rightarrow> actor list list \<Rightarrow> ws_state \<Rightarrow> ws_state" where
  "finishWorkspaceSwitch orig monitors s = orig (finish_loops monitors s)"

text \<open>
  The shell's own teardown destroys the monitor groups and with them every workspace
  group; all the model keeps of it is the \<^verbatim>\<open>destroy\<close> signal of each workspace group.
\<close>

definition default_teardown :: "actor list list \<Rightarrow> ws_state \<Rightarrow> ws_state" where
  "default_teardown monitors s = fold (\<lambda>monitor. fold emit_destroy monitor) monitors s"


section \<open>The overview\<close>

text \<open>
  \<^verbatim>\<open>String.prototype.indexOf\<close>: the position of the first occurrence, or \<open>-1\<close>.
\<close>

fun indexOf :: "string \<Rightarrow> string \<Rightarrow> int" where
  "indexOf [] pat = (if pat = [] then 0 else - 1)"
| "indexOf (c # cs) pat =
     (if prefix pat (c # cs) then 0
      else let i = indexOf cs pat in if i = - 1 then - 1 else i + 1)"

datatype effect = LinearFilterEffect | RoundedCornersEffect

text \<open>
  The closures connected through the connection registry \<^verbatim>\<open>c\<close>:
  in \<^verbatim>\<open>src/src/extension.ts\<close> the handler of \<^verbatim>\<open>destroy\<close> on the preview (it captures the
  preview, the shadow clone and \<^verbatim>\<open>firstChild\<close>); in \<^verbatim>\<open>part_000\<close> the handlers of
  \<^verbatim>\<open>notify::width\<close> and of \<^verbatim>\<open>destroy\<close> on the window's clone (the second captures the
  clone and \<^verbatim>\<open>window_rounding_effect\<close>, given here by the window actor that carries the
  effect, or \<open>None\<close> when there is none).
\<close>

datatype overview_handler =
    PreviewDestroy actor actor "actor option"
  | CloneNotifyWidth actor
  | CloneDestroyed actor "actor option"

text \<open>
  The part of the scene the two versions of \<^verbatim>\<open>_addWindow\<close> work on. \<open>ov_layout\<close> is the table
  of windows a \<^verbatim>\<open>Shell.WindowPreviewLayout\<close> keeps for its container; \<open>ov_shadow_target\<close>
  is set for the instances of \<^verbatim>\<open>OverviewShadowActor\<close> and holds what their constructor was
  given; \<open>ov_rounding_effect\<close> is the \<^verbatim>\<open>enabled\<close> flag of a window actor's rounded-corners
  effect, \<open>None\<close> for an actor without one.
\<close>

record overview_state =
  ov_children :: "actor \<Rightarrow> actor list"
  ov_layout :: "actor \<Rightarrow> (nat \<times> actor) list"
  ov_clone_source :: "actor \<Rightarrow> actor option"
  ov_shadow_target :: "actor \<Rightarrow> actor option"
  ov_effects :: "actor \<Rightarrow> effect list"
  ov_rounding_effect :: "actor \<Rightarrow> bool option"
  ov_bindings :: "(actor \<times> actor \<times> string) list"
  ov_connections :: "(actor \<times> overview_handler) list"
  ov_destroyed :: "actor list"
  ov_next_actor :: actor

text \<open>A \<^verbatim>\<open>WindowPreview\<close> and its window container.\<close>

record window_preview =
  preview_actor :: actor
  window_container :: actor

text \<open>
  What \<^verbatim>\<open>_addWindow\<close> reads from its \<^verbatim>\<open>Meta.Window\<close>: its window actor, the shadow
  (\<^verbatim>\<open>__rwc_rounded_window_info?.shadow\<close>) and the answer of \<^verbatim>\<open>UI.ShouldHasRoundedCorners\<close>
  for the configuration chosen for it. \<open>get_meta_window\<close> is the window as
  \<^verbatim>\<open>vfunc_allocate\<close> sees it through the window actor.
\<close>

record overview_window =
  window_id :: nat
  compositor_private :: actor
  get_meta_window :: meta_window
  rounded_shadow :: "actor option"
  ShouldHasRoundedCorners :: bool

text \<open>
  \<^verbatim>\<open>layoutManager.add_window(window)\<close>: \<^verbatim>\<open>null\<close> for a window the layout already shows,
  otherwise a new clone of the window actor, added on top of the container.
\<close>

definition add_window ::
  "actor \<Rightarrow> overview_window \<Rightarrow> overview_state \<Rightarrow> actor option \<times> overview_state" where
  "add_window container window s =
     (if window_id window \<in> fst ` set (ov_layout s container) then (None, s)
      else
        (Some (ov_next_actor s),
         s\<lparr>ov_next_actor := Suc (ov_next_actor s),
           ov_clone_source := (ov_clone_source s)
              (ov_next_actor s := Some (compositor_private window)),
           ov_layout := (ov_layout s)
              (container := ov_layout s container @ [(window_id window, ov_next_actor s)]),
           ov_children := (ov_children s)
              (container := ov_children s container @ [ov_next_actor s])\<rparr>))"

text \<open>
  The shell's own \<^verbatim>\<open>_addWindow\<close>, which \<^verbatim>\<open>src/src/extension.ts\<close> calls first; \<^verbatim>\<open>part_000\<close>
  copies its body.
\<close>

definition orig_add_window ::
  "window_preview \<Rightarrow> overview_window \<Rightarrow> overview_state \<Rightarrow> overview_state" where
  "orig_add_window this window s = snd (add_window (window_container this) window s)"

definition add_effect :: "actor \<Rightarrow> effect \<Rightarrow> overview_state \<Rightarrow> overview_state" where
  "add_effect a e s = s\<lparr>ov_effects := (ov_effects s)(a := ov_effects s a @ [e])\<rparr>"


definition set_enabled :: "actor \<Rightarrow> bool \<Rightarrow> overview_state \<Rightarrow> overview_state" where
  "set_enabled a b s = s\<lparr>ov_rounding_effect := (ov_rounding_effect s)(a := Some b)\<rparr>"

definition new_OverviewShadowActor ::
  "actor \<Rightarrow> actor \<Rightarrow> overview_state \<Rightarrow> actor \<times> overview_state" where
  "new_OverviewShadowActor source target s =
     (ov_next_actor s,
      s\<lparr>ov_next_actor := Suc (ov_next_actor s),
        ov_clone_source := (ov_clone_source s)(ov_next_actor s := Some source),
        ov_shadow_target := (ov_shadow_target s)(ov_next_actor s := Some target)\<rparr>)"

definition ov_connect :: "actor \<Rightarrow> overview_handler \<Rightarrow> overview_state \<Rightarrow> overview_state" where
  "ov_connect a h s = s\<lparr>ov_connections := ov_connections s @ [(a, h)]\<rparr>"



subsection \<open>\<^verbatim>\<open>WindowPreview.prototype._addWindow\<close> of \<^verbatim>\<open>src/src/extension.ts\<close>\<close>

text \<open>\<open>stack\<close> is the result of \<^verbatim>\<open>stackMsg()\<close>, \<open>None\<close> for \<^verbatim>\<open>undefined\<close>.\<close>

definition addWindow ::
  "window_preview \<Rightarrow> overview_window \<Rightarrow> string option \<Rightarrow> overview_state \<Rightarrow> overview_state" where
  "addWindow this window stack s =
     (let s1 = orig_add_window this window s
      in case stack of
           None \<Rightarrow> s1
         | Some st \<Rightarrow>
             if indexOf st ''_updateAttachedDialogs'' \<noteq> - 1 \<or> indexOf st ''addDialog'' \<noteq> - 1
             then s1
             else
               (case rounded_shadow window of
                  None \<Rightarrow> s1
                | Some shadow \<Rightarrow>
                    if \<not> ShouldHasRoundedCorners window then s1
                    else
                      let windowContainer = window_container this;
                          firstChild = (case ov_children s1 windowContainer of
                                          [] \<Rightarrow> None | c # cs \<Rightarrow> Some c);
                          s2 = (case firstChild of
                                  Some f \<Rightarrow> add_effect f LinearFilterEffect s1
                                | None \<Rightarrow> s1);
                          (shadow_clone, s3) =
                             new_OverviewShadowActor shadow (preview_actor this) s2;
                          s4 = s3\<lparr>ov_bindings := ov_bindings s3 @
                                  [(windowContainer, shadow_clone, ''scale-x''),
                                   (windowContainer, shadow_clone, ''scale-y'')]\<rparr>;
                          s5 = s4\<lparr>ov_children := (ov_children s4)
                                  (preview_actor this :=
                                     insert_child_below shadow_clone windowContainer
                                       (ov_children s4 (preview_actor this)))\<rparr>
                      in ov_connect (preview_actor this)
                           (PreviewDestroy (preview_actor this) shadow_clone firstChild) s5))"

subsection \<open>\<^verbatim>\<open>WindowPreview.prototype._addWindow\<close> of \<^verbatim>\<open>src/unnamed/part_000\<close>\<close>

definition addWindow_part0 ::
  "window_preview \<Rightarrow> overview_window \<Rightarrow> string option \<Rightarrow> overview_state \<Rightarrow> overview_state" where
  "addWindow_part0 this window stack s =
     (case add_window (window_container this) window s of
        (None, s1) \<Rightarrow> s1
      | (Some window_clone, s1) \<Rightarrow>
          (case stack of
             None \<Rightarrow> s1
           | Some st \<Rightarrow>
               (case rounded_shadow window of
                  None \<Rightarrow> s1
                | Some shadow \<Rightarrow>
                    if \<not> ShouldHasRoundedCorners window then s1
                    else
                      let (shadow_actor, s2) = new_OverviewShadowActor shadow window_clone s1;
                          s3 = s2\<lparr>ov_children := (ov_children s2)
                                  (window_container this :=
                                     insert_child_below shadow_actor window_clone
                                       (ov_children s2 (window_container this)))\<rparr>;
                          s4 = add_effect window_clone LinearFilterEffect s3;
                          windowActor = compositor_private window;
                          window_rounding_effect =
                            (case ov_rounding_effect s4 windowActor of
                               None \<Rightarrow> None | Some b \<Rightarrow> Some windowActor);
                          s5 = (case window_rounding_effect of
                                  Some a \<Rightarrow> set_enabled a False s4
                                | None \<Rightarrow> s4);
                          s6 = add_effect window_clone RoundedCornersEffect s5;
                          s7 = ov_connect window_clone (CloneNotifyWidth window_clone) s6
                      in ov_connect window_clone (CloneDestroyed window_clone window_rounding_effect) s7)))"

subsection \<open>The \<^verbatim>\<open>destroy\<close> handlers of the overview\<close>





text \<open>
  The shadow clones of the shadow \<open>sh\<close> among the children of \<open>parent\<close>: the instances of
  \<^verbatim>\<open>OverviewShadowActor\<close> whose source is \<open>sh\<close>.
\<close>

definition shadow_clones :: "overview_state \<Rightarrow> actor \<Rightarrow> actor \<Rightarrow> actor list" where
  "shadow_clones s parent sh =
     filter (\<lambda>a. ov_shadow_target s a \<noteq> None \<and> ov_clone_source s a = Some sh)
       (ov_children s parent)"


section \<open>Sessions, events and invariants\<close>

text \<open>The test \<^verbatim>\<open>shadow && enabled\<close> of \<^verbatim>\<open>_prepareWorkspaceSwitch\<close>, as a predicate.\<close>

definition wants_shadow :: "window_record \<Rightarrow> bool" where
  "wants_shadow r \<longleftrightarrow>
     rwc_shadow (windowActor r) \<noteq> None \<and> effect_enabled (windowActor r) = Some True"

text \<open>
  A workspace group as the shell builds it, at any time of a session: its children are
  distinct and older than every actor created later, and the clones of its records are
  distinct children of it. The groups \<open>monitors\<close> of a session: no group and no clone
  occurs twice, and every group is built.
\<close>

definition group_built :: "ws_state \<Rightarrow> actor \<Rightarrow> bool" where
  "group_built s ws \<longleftrightarrow>
     distinct (children s ws) \<and> (\<forall>a \<in> set (children s ws). a < next_actor s)
     \<and> distinct (map clone (windowRecords s ws))
     \<and> (\<forall>r \<in> set (windowRecords s ws). clone r \<in> set (children s ws))"

definition session_built :: "ws_state \<Rightarrow> actor list list \<Rightarrow> bool" where
  "session_built s monitors \<longleftrightarrow>
     distinct (concat monitors)
     \<and> distinct (map clone (concat (map (windowRecords s) (concat monitors))))
     \<and> (\<forall>ws \<in> set (concat monitors). group_built s ws)"

text \<open>
  A workspace group as the original method leaves it: its children are distinct and older
  than every actor created later, the clones of its records are distinct children, and
  no clone carries a \<^verbatim>\<open>_shadow_clone\<close> yet.
\<close>

definition group_ready :: "ws_state \<Rightarrow> actor \<Rightarrow> bool" where
  "group_ready s ws \<longleftrightarrow>
     distinct (children s ws) \<and> (\<forall>a \<in> set (children s ws). a < next_actor s)
     \<and> distinct (map clone (windowRecords s ws))
     \<and> (\<forall>r \<in> set (windowRecords s ws).
           clone r \<in> set (children s ws) \<and> shadow_clone_of s (clone r) = None)"

text \<open>A handler connected to an actor names that actor, and its own id where it has one.\<close>

fun well_connected :: "actor \<times> nat \<times> handler \<Rightarrow> bool" where
  "well_connected (a, i, WorkspaceDestroy w r d) = (a = w \<and> i = d)"
| "well_connected (a, i, CloneDestroy c n d) = (a = c \<and> i = d)"
| "well_connected (a, i, NotifyTranslationZ c sh) = (a = c)"
| "well_connected (a, i, Restacked w) = False"

definition handlers_consistent :: "ws_state \<Rightarrow> bool" where
  "handlers_consistent s \<longleftrightarrow> (\<forall>e \<in> set (actor_handlers s). well_connected e)"

definition is_restacked :: "handler \<Rightarrow> bool" where
  "is_restacked h = (case h of Restacked w \<Rightarrow> True | _ \<Rightarrow> False)"

text \<open>
  The state in which a session starts, after the original method has built the groups
  \<open>monitors\<close>: no group and no clone occurs twice, every group is ready, only handlers of
  \<^verbatim>\<open>restacked\<close> are connected to the display, and no actor destroyed before is newer than
  the actors present.
\<close>

definition session_ready :: "ws_state \<Rightarrow> actor list list \<Rightarrow> bool" where
  "session_ready s monitors \<longleftrightarrow>
     distinct (concat monitors)
     \<and> distinct (map clone (concat (map (windowRecords s) (concat monitors))))
     \<and> (\<forall>ws \<in> set (concat monitors). group_ready s ws)
     \<and> (\<forall>e \<in> set (display_handlers s). is_restacked (snd e))
     \<and> handlers_consistent s
     \<and> (\<forall>a \<in> set (destroyed s). a < next_actor s)"

text \<open>
  The shadow clones of a group are in place when every clone of a record that carries a
  \<^verbatim>\<open>_shadow_clone\<close> has it directly under itself among the children of the group.
\<close>

definition shadows_stacked :: "ws_state \<Rightarrow> actor \<Rightarrow> bool" where
  "shadows_stacked s ws \<longleftrightarrow>
     (\<forall>r \<in> set (windowRecords s ws).
        case shadow_clone_of s (clone r) of
          None \<Rightarrow> True
        | Some sh \<Rightarrow> immediately_below sh (clone r) (children s ws))"

text \<open>
  What holds of a group during a session: its children and the clones of its records are
  distinct, the clones and their shadow clones are children of the group, no shadow
  clone is a clone of a record, and no two clones share a shadow clone.
\<close>

definition group_ok :: "ws_state \<Rightarrow> actor \<Rightarrow> bool" where
  "group_ok s ws \<longleftrightarrow>
     distinct (children s ws) \<and> distinct (map clone (windowRecords s ws))
     \<and> (\<forall>r \<in> set (windowRecords s ws). \<forall>sh. shadow_clone_of s (clone r) = Some sh \<longrightarrow>
           clone r \<in> set (children s ws) \<and> sh \<in> set (children s ws)
           \<and> sh \<notin> clone ` set (windowRecords s ws)
           \<and> (\<forall>r' \<in> set (windowRecords s ws).
                 shadow_clone_of s (clone r') = Some sh \<longrightarrow> clone r' = clone r))"

text \<open>
  A restack event: the shell puts the children of the groups into a new order, a
  permutation of the old one, and the display emits \<^verbatim>\<open>restacked\<close>.
\<close>

inductive restack_event :: "ws_state \<Rightarrow> ws_state \<Rightarrow> bool" where
  restack: "(\<And>ws. mset (order ws) = mset (children s ws))
     \<Longrightarrow> restack_event s (emit_restacked (s\<lparr>children := order\<rparr>))"

text \<open>
  What the loop over the records \<open>rs\<close> of the group \<open>ws\<close> has done when it takes the state
  \<open>s\<close> to \<open>s'\<close>: the children stay distinct, the new ones are the actors created in
  between, one for each record that wants a shadow; every such record has its new shadow
  clone, a clone of the window's shadow with the geometry of the workspace switch, directly
  under its clone; \<^verbatim>\<open>_shadow_clone\<close> is as before for the others; and nothing else has
  changed.
\<close>

definition records_prepared ::
  "real \<Rightarrow> actor \<Rightarrow> window_record list \<Rightarrow> ws_state \<Rightarrow> ws_state \<Rightarrow> bool" where
  "records_prepared P ws rs s s' \<longleftrightarrow>
     distinct (children s' ws)
     \<and> (\<forall>a \<in> set (children s' ws). a \<in> set (children s ws) \<or> (next_actor s \<le> a \<and> a < next_actor s'))
     \<and> set (children s ws) \<subseteq> set (children s' ws)
     \<and> length (children s' ws) = length (children s ws) + length (filter wants_shadow rs)
     \<and> next_actor s' = next_actor s + length (filter wants_shadow rs)
     \<and> (\<forall>r \<in> set rs.
           if wants_shadow r
           then (\<exists>sh. shadow_clone_of s' (clone r) = Some sh \<and> next_actor s \<le> sh
                   \<and> sh < next_actor s'
                   \<and> clone_source s' sh = rwc_shadow (windowActor r)
                   \<and> geometry_of s' sh = Some (workspace_switch_box P r)
                   \<and> immediately_below sh (clone r) (children s' ws))
           else shadow_clone_of s' (clone r) = shadow_clone_of s (clone r))
     \<and> (\<forall>c. c \<notin> clone ` set rs \<longrightarrow> shadow_clone_of s' c = shadow_clone_of s c)
     \<and> (\<forall>a b. immediately_below a b (children s ws) \<longrightarrow> b \<notin> clone ` set rs
           \<longrightarrow> immediately_below a b (children s' ws))
     \<and> (\<forall>w. w \<noteq> ws \<longrightarrow> children s' w = children s w)
     \<and> (\<forall>a. next_actor s \<le> a \<and> a < next_actor s'
           \<longrightarrow> (\<exists>r \<in> set rs. shadow_clone_of s' (clone r) = Some a))"

text \<open>
  What a restack event needs and keeps: every group of the session is in order and has its
  handler of \<^verbatim>\<open>restacked\<close> connected, and nothing else is connected to the display.
\<close>

definition session_ok :: "ws_state \<Rightarrow> actor list \<Rightarrow> bool" where
  "session_ok s gs \<longleftrightarrow>
     (\<forall>ws \<in> set gs. group_ok s ws \<and> (\<exists>i. (i, Restacked ws) \<in> set (display_handlers s)))
     \<and> (\<forall>e \<in> set (display_handlers s). is_restacked (snd e))"

text \<open>
  Two states with the same records, \<^verbatim>\<open>_shadow_clone\<close> properties, handlers, destroyed actors,
  faults and counter of actors; a restack event changes none of these.
\<close>

definition same_session :: "ws_state \<Rightarrow> ws_state \<Rightarrow> bool" where
  "same_session s s' \<longleftrightarrow>
     windowRecords s' = windowRecords s \<and> shadow_clone_of s' = shadow_clone_of s
     \<and> display_handlers s' = display_handlers s \<and> actor_handlers s' = actor_handlers s
     \<and> destroyed s' = destroyed s \<and> next_actor s' = next_actor s \<and> faults s' = faults s"

text \<open>
  \<open>gone a s\<close>: if the actor \<open>a\<close> has been destroyed, it is a child of no actor.
\<close>

definition gone :: "actor \<Rightarrow> ws_state \<Rightarrow> bool" where
  "gone a s \<longleftrightarrow> (a \<in> set (destroyed s) \<longrightarrow> (\<forall>p. a \<notin> set (children s p)))"

subsection \<open>A session and a preview as examples\<close>

text \<open>
  Four workspace groups, 1 to 4, of three windows each. All windows have a shadow; the
  second window of each group has its rounded-corners effect disabled. The clones of
  group \<open>ws\<close> are the actors \<open>10 * ws\<close>, \<open>10 * ws + 1\<close> and \<open>10 * ws + 2\<close>.
\<close>

definition example_window :: "actor option \<Rightarrow> bool option \<Rightarrow> window_actor" where
  "example_window sh en =
     \<lparr>actor_x = 90, actor_y = 40,
      metaWindow = \<lparr>frame_rect =
           \<lparr>rect_x = 90, rect_y = 40, rect_width = 1024, rect_height = 768\<rparr>,
         buffer_rect = \<lparr>rect_x = 80, rect_y = 30, rect_width = 1044, rect_height = 788\<rparr>,
         is_attached_dialog = False, WindowScaleFactor = 1\<rparr>,
      rwc_shadow = sh, effect_enabled = en\<rparr>"

definition example_records :: "actor \<Rightarrow> window_record list" where
  "example_records ws =
     (if ws \<in> {1, 2, 3, 4}
      then [\<lparr>windowActor = example_window (Some (50 + ws)) (Some True),
             clone = 10 * ws, clone_x = 100, clone_y = 50\<rparr>,
            \<lparr>windowActor = example_window (Some (60 + ws)) (Some False),
             clone = 10 * ws + 1, clone_x = 100, clone_y = 50\<rparr>,
            \<lparr>windowActor = example_window (Some (70 + ws)) (Some True),
             clone = 10 * ws + 2, clone_x = 100, clone_y = 50\<rparr>]
      else [])"

definition example_state :: ws_state where
  "example_state =
     \<lparr>children = (\<lambda>ws. map clone (example_records ws)),
      windowRecords = example_records,
      shadow_clone_of = (\<lambda>c. None), clone_source = (\<lambda>a. None), geometry_of = (\<lambda>a. None),
      translationZ = (\<lambda>a. 0), visible_bound = [], destroyed = [],
      display_handlers = [], actor_handlers = [],
      next_actor = 100, next_handler_id = 1, faults = []\<rparr>"

text \<open>
  The session of the one group 1, prepared once, and prepared a second time before it
  has finished.
\<close>

definition example_prepared_once :: ws_state where
  "example_prepared_once = prepareWorkspaceSwitch 80 [[1]] example_state"

definition example_prepared_twice :: ws_state where
  "example_prepared_twice = prepareWorkspaceSwitch 80 [[1]] example_prepared_once"

text \<open>
  A preview, actor 1, whose children are its window container, actor 2, and one more
  actor; a window with the window actor 20, the shadow 21 and rounded corners, an attached
  dialog or not; and the stack traces of a call from \<^verbatim>\<open>addDialog\<close> and of one from
  \<^verbatim>\<open>_init\<close>.
\<close>

definition example_overview :: overview_state where
  "example_overview =
     \<lparr>ov_children = (\<lambda>a. [])(1 := [2, 3]), ov_layout = (\<lambda>a. []),
      ov_clone_source = (\<lambda>a. None), ov_shadow_target = (\<lambda>a. None),
      ov_effects = (\<lambda>a. []), ov_rounding_effect = (\<lambda>a. None)(20 := Some True),
      ov_bindings = [], ov_connections = [], ov_destroyed = [], ov_next_actor = 100\<rparr>"

definition example_preview :: window_preview where
  "example_preview = \<lparr>preview_actor = 1, window_container = 2\<rparr>"

definition example_overview_window :: "bool \<Rightarrow> overview_window" where
  "example_overview_window dialog =
     \<lparr>window_id = 7, compositor_private = 20,
      get_meta_window =
        \<lparr>frame_rect = \<lparr>rect_x = 0, rect_y = 0, rect_width = 800, rect_height = 600\<rparr>,
         buffer_rect = \<lparr>rect_x = - 10, rect_y = - 10, rect_width = 820, rect_height = 620\<rparr>,
         is_attached_dialog = dialog, WindowScaleFactor = 1\<rparr>,
      rounded_shadow = Some 21, ShouldHasRoundedCorners = True\<rparr>"

definition example_dialog_stack :: string where
  "example_dialog_stack = ''_addWindow@extension.js:88:34 addDialog@windowPreview.js:380:14''"


section \<open>Lemmas: stacking\<close>

lemma set_insert_child_below:
  "set (insert_child_below c s cs) = (if s \<in> set cs then insert c (set cs) else set cs)"
  by (induction cs) auto

lemma distinct_insert_child_below:
  "distinct cs \<Longrightarrow> c \<notin> set cs \<Longrightarrow> distinct (insert_child_below c s cs)"
  by (induction cs) (auto simp: set_insert_child_below)

lemma immediately_below_insert:
  "s \<in> set cs \<Longrightarrow> c \<noteq> s \<Longrightarrow> immediately_below c s (insert_child_below c s cs)"
proof (induction cs)
  case Nil
  then show ?case by simp
next
  case (Cons x xs)
  show ?case
  proof (cases "x = s")
    case True
    then show ?thesis by simp
  next
    case False
    with Cons have ib: "immediately_below c s (insert_child_below c s xs)" by simp
    then obtain y ys where "insert_child_below c s xs = y # ys"
      by (cases "insert_child_below c s xs") auto
    with ib False show ?thesis by simp
  qed
qed

lemma immediately_below_Cons:
  "immediately_below a b xs \<Longrightarrow> immediately_below a b (x # xs)"
  by (cases xs) auto

lemma immediately_below_in_set:
  "immediately_below a b xs \<Longrightarrow> a \<in> set xs \<and> b \<in> set xs"
  by (induction a b xs rule: immediately_below.induct) auto

lemma immediately_below_keep_insert:
  "immediately_below a b cs \<Longrightarrow> s \<noteq> b \<Longrightarrow> immediately_below a b (insert_child_below c s cs)"
proof (induction a b cs rule: immediately_below.induct)
  case (1 a b x y ys)
  then show ?case
    by (auto simp: immediately_below_Cons)
qed auto

lemma immediately_below_keep_remove:
  "immediately_below a b cs \<Longrightarrow> c \<noteq> a \<Longrightarrow> c \<noteq> b \<Longrightarrow> immediately_below a b (removeAll c cs)"
proof (induction a b cs rule: immediately_below.induct)
  case (1 a b x y ys)
  show ?case
  proof (cases "x = a \<and> y = b")
    case True
    with 1 show ?thesis by simp
  next
    case False
    with 1 have ib: "immediately_below a b (removeAll c (y # ys))" by simp
    show ?thesis
    proof (cases "c = x")
      case True
      then have "removeAll c (x # y # ys) = removeAll c (y # ys)" by simp
      with ib show ?thesis by (simp only:)
    next
      case False
      then have "removeAll c (x # y # ys) = x # removeAll c (y # ys)" by simp
      with ib show ?thesis by (simp only: immediately_below_Cons)
    qed
  qed
qed auto

lemma set_set_child_below_sibling: "set (set_child_below_sibling c s cs) = set cs"
  by (auto simp: set_child_below_sibling_def set_insert_child_below)

lemma distinct_set_child_below_sibling:
  "distinct cs \<Longrightarrow> distinct (set_child_below_sibling c s cs)"
  by (simp add: set_child_below_sibling_def distinct_insert_child_below distinct_removeAll)

lemma immediately_below_set_child:
  "c \<in> set cs \<Longrightarrow> s \<in> set cs \<Longrightarrow> c \<noteq> s
     \<Longrightarrow> immediately_below c s (set_child_below_sibling c s cs)"
  by (simp add: set_child_below_sibling_def immediately_below_insert)

lemma immediately_below_keep_set_child:
  "immediately_below a b cs \<Longrightarrow> c \<noteq> a \<Longrightarrow> c \<noteq> b \<Longrightarrow> s \<noteq> b
     \<Longrightarrow> immediately_below a b (set_child_below_sibling c s cs)"
  by (simp add: set_child_below_sibling_def immediately_below_keep_insert
        immediately_below_keep_remove)

section \<open>Lemmas: preparing a workspace switch\<close>

lemma prepare_record_fields:
  "children (prepare_record P ws r s) =
     (if wants_shadow r
      then (children s)(ws := insert_child_below (next_actor s) (clone r) (children s ws))
      else children s)"
  "next_actor (prepare_record P ws r s) =
     (if wants_shadow r then Suc (next_actor s) else next_actor s)"
  "shadow_clone_of (prepare_record P ws r s) =
     (if wants_shadow r then (shadow_clone_of s)(clone r := Some (next_actor s))
      else shadow_clone_of s)"
  "windowRecords (prepare_record P ws r s) = windowRecords s"
  "display_handlers (prepare_record P ws r s) = display_handlers s"
  "destroyed (prepare_record P ws r s) = destroyed s"
  "faults (prepare_record P ws r s) = faults s"
  by (auto simp: prepare_record_def wants_shadow_def actor_connect_def Let_def
        split: option.splits bool.splits)

lemma prepare_record_skip: "\<not> wants_shadow r \<Longrightarrow> prepare_record P ws r s = s"
  by (auto simp: prepare_record_def wants_shadow_def split: option.splits bool.splits)

lemma prepare_record_handlers:
  "actor_handlers (prepare_record P ws r s) =
     (if wants_shadow r
      then actor_handlers s @
             [(clone r, next_handler_id s, NotifyTranslationZ (clone r) (next_actor s)),
              (clone r, Suc (next_handler_id s),
                 CloneDestroy (clone r) (next_handler_id s) (Suc (next_handler_id s)))]
      else actor_handlers s)"
  "next_handler_id (prepare_record P ws r s) =
     (if wants_shadow r then Suc (Suc (next_handler_id s)) else next_handler_id s)"
  by (auto simp: prepare_record_def wants_shadow_def actor_connect_def Let_def
        split: option.splits bool.splits)

lemma length_insert_child_below:
  "length (insert_child_below c s cs) = (if s \<in> set cs then Suc (length cs) else length cs)"
  by (induction cs) auto

lemma prepare_record_source:
  "clone_source (prepare_record P ws r s) =
     (if wants_shadow r then (clone_source s)(next_actor s := rwc_shadow (windowActor r))
      else clone_source s)"
  "geometry_of (prepare_record P ws r s) =
     (if wants_shadow r
      then (geometry_of s)(next_actor s := Some (workspace_switch_box P r))
      else geometry_of s)"
  by (auto simp: prepare_record_def wants_shadow_def actor_connect_def Let_def
        split: option.splits bool.splits)

lemma prepare_record_visible:
  "visible_bound (prepare_record P ws r s) =
     (if wants_shadow r then visible_bound s @ [(clone r, next_actor s)] else visible_bound s)"
  by (auto simp: prepare_record_def wants_shadow_def actor_connect_def Let_def
        split: option.splits bool.splits)

lemma fold_prepare_record_older:
  "a < next_actor s \<Longrightarrow>
     clone_source (fold (prepare_record P ws) rs s) a = clone_source s a
     \<and> geometry_of (fold (prepare_record P ws) rs s) a = geometry_of s a"
proof (induction rs arbitrary: s)
  case Nil
  then show ?case by simp
next
  case (Cons r rs)
  have "a < next_actor (prepare_record P ws r s)"
    using Cons.prems by (simp add: prepare_record_fields)
  from Cons.IH [OF this] show ?case
    using Cons.prems by (simp add: prepare_record_source)
qed

lemma prepare_records_post:
  "distinct (children s ws) \<Longrightarrow> \<forall>a \<in> set (children s ws). a < next_actor s
   \<Longrightarrow> distinct (map clone rs)
   \<Longrightarrow> \<forall>r \<in> set rs. clone r \<in> set (children s ws)
   \<Longrightarrow> records_prepared P ws rs s (fold (prepare_record P ws) rs s)"
proof (induction rs arbitrary: s)
  case Nil
  then show ?case by (simp add: records_prepared_def)
next
  case (Cons r rs)
  let ?s1 = "prepare_record P ws r s"
  let ?s' = "fold (prepare_record P ws) rs ?s1"
  have notin: "clone r \<notin> clone ` set rs" and drs: "distinct (map clone rs)"
    using Cons.prems(3) by auto
  show ?case
  proof (cases "wants_shadow r")
    case False
    then have s1: "?s1 = s" by (simp add: prepare_record_skip)
    have IH: "records_prepared P ws rs s (fold (prepare_record P ws) rs s)"
      using Cons.IH [of s] Cons.prems drs by simp
    let ?t = "fold (prepare_record P ws) rs s"
    have i1: "distinct (children ?t ws)"
      and i2: "\<forall>a \<in> set (children ?t ws).
                 a \<in> set (children s ws) \<or> (next_actor s \<le> a \<and> a < next_actor ?t)"
      and i3: "set (children s ws) \<subseteq> set (children ?t ws)"
      and il: "length (children ?t ws) = length (children s ws) + length (filter wants_shadow rs)"
      and i4: "next_actor ?t = next_actor s + length (filter wants_shadow rs)"
      and i5: "\<forall>r \<in> set rs.
           if wants_shadow r
           then (\<exists>sh. shadow_clone_of ?t (clone r) = Some sh \<and> next_actor s \<le> sh
                   \<and> sh < next_actor ?t
                   \<and> clone_source ?t sh = rwc_shadow (windowActor r)
                   \<and> geometry_of ?t sh = Some (workspace_switch_box P r)
                   \<and> immediately_below sh (clone r) (children ?t ws))
           else shadow_clone_of ?t (clone r) = shadow_clone_of s (clone r)"
      and i6: "\<forall>c. c \<notin> clone ` set rs \<longrightarrow> shadow_clone_of ?t c = shadow_clone_of s c"
      and i7: "\<forall>a b. immediately_below a b (children s ws) \<longrightarrow> b \<notin> clone ` set rs
           \<longrightarrow> immediately_below a b (children ?t ws)"
      and i8: "\<forall>w. w \<noteq> ws \<longrightarrow> children ?t w = children s w"
      and i9: "\<forall>a. next_actor s \<le> a \<and> a < next_actor ?t
           \<longrightarrow> (\<exists>r \<in> set rs. shadow_clone_of ?t (clone r) = Some a)"
      using IH unfolding records_prepared_def by blast+
    have same: "shadow_clone_of ?t (clone r) = shadow_clone_of s (clone r)"
      using i6 notin by simp
    have jl: "length (children ?t ws)
                = length (children s ws) + length (filter wants_shadow (r # rs))"
      using il False by simp
    have j4: "next_actor ?t = next_actor s + length (filter wants_shadow (r # rs))"
      using i4 False by simp
    have j5: "\<forall>r' \<in> set (r # rs).
           if wants_shadow r'
           then (\<exists>sh. shadow_clone_of ?t (clone r') = Some sh \<and> next_actor s \<le> sh
                   \<and> sh < next_actor ?t
                   \<and> clone_source ?t sh = rwc_shadow (windowActor r')
                   \<and> geometry_of ?t sh = Some (workspace_switch_box P r')
                   \<and> immediately_below sh (clone r') (children ?t ws))
           else shadow_clone_of ?t (clone r') = shadow_clone_of s (clone r')"
      using i5 same False by simp
    have j6: "\<forall>c. c \<notin> clone ` set (r # rs) \<longrightarrow> shadow_clone_of ?t c = shadow_clone_of s c"
      using i6 by simp
    have j7: "\<forall>a b. immediately_below a b (children s ws) \<longrightarrow> b \<notin> clone ` set (r # rs)
           \<longrightarrow> immediately_below a b (children ?t ws)"
      using i7 by simp
    have j9: "\<forall>a. next_actor s \<le> a \<and> a < next_actor ?t
           \<longrightarrow> (\<exists>r' \<in> set (r # rs). shadow_clone_of ?t (clone r') = Some a)"
      using i9 by auto
    have "records_prepared P ws (r # rs) s ?t"
      unfolding records_prepared_def
      using i1 i2 i3 jl j4 j5 j6 j7 i8 j9 by blast
    then show ?thesis by (simp add: s1)
  next
    case True
    let ?n = "next_actor s"
    have ch1: "children ?s1 ws = insert_child_below ?n (clone r) (children s ws)"
      and na1: "next_actor ?s1 = Suc ?n"
      and sc1: "shadow_clone_of ?s1 = (shadow_clone_of s)(clone r := Some ?n)"
      and oth1: "\<And>w. w \<noteq> ws \<Longrightarrow> children ?s1 w = children s w"
      using True by (simp_all add: prepare_record_fields)
    have src1: "clone_source ?s1 ?n = rwc_shadow (windowActor r)"
      and geo1: "geometry_of ?s1 ?n = Some (workspace_switch_box P r)"
      using True by (simp_all add: prepare_record_source)
    have nfresh: "?n \<notin> set (children s ws)"
      using Cons.prems(2) by auto
    have rin: "clone r \<in> set (children s ws)"
      using Cons.prems(4) by simp
    have nr: "?n \<noteq> clone r"
      using nfresh rin by auto
    have set1: "set (children ?s1 ws) = insert ?n (set (children s ws))"
      using rin by (simp add: ch1 set_insert_child_below)
    have len1: "length (children ?s1 ws) = Suc (length (children s ws))"
      using rin by (simp add: ch1 length_insert_child_below)
    have p1: "distinct (children ?s1 ws)"
      using Cons.prems(1) nfresh by (simp add: ch1 distinct_insert_child_below)
    have p2: "\<forall>a \<in> set (children ?s1 ws). a < next_actor ?s1"
      using Cons.prems(2) by (auto simp: set1 na1)
    have p4: "\<forall>r' \<in> set rs. clone r' \<in> set (children ?s1 ws)"
      using Cons.prems(4) by (simp add: set1)
    have ne: "clone r' \<noteq> clone r" if "r' \<in> set rs" for r'
      using that notin by (metis imageI)
    have IH: "records_prepared P ws rs ?s1 ?s'"
      using Cons.IH [OF p1 p2 drs p4] .
    have i1: "distinct (children ?s' ws)"
      and i2: "\<forall>a \<in> set (children ?s' ws).
                 a \<in> set (children ?s1 ws) \<or> (next_actor ?s1 \<le> a \<and> a < next_actor ?s')"
      and i3: "set (children ?s1 ws) \<subseteq> set (children ?s' ws)"
      and il: "length (children ?s' ws)
                 = length (children ?s1 ws) + length (filter wants_shadow rs)"
      and i4: "next_actor ?s' = next_actor ?s1 + length (filter wants_shadow rs)"
      and i5: "\<forall>r \<in> set rs.
           if wants_shadow r
           then (\<exists>sh. shadow_clone_of ?s' (clone r) = Some sh \<and> next_actor ?s1 \<le> sh
                   \<and> sh < next_actor ?s'
                   \<and> clone_source ?s' sh = rwc_shadow (windowActor r)
                   \<and> geometry_of ?s' sh = Some (workspace_switch_box P r)
                   \<and> immediately_below sh (clone r) (children ?s' ws))
           else shadow_clone_of ?s' (clone r) = shadow_clone_of ?s1 (clone r)"
      and i6: "\<forall>c. c \<notin> clone ` set rs \<longrightarrow> shadow_clone_of ?s' c = shadow_clone_of ?s1 c"
      and i7: "\<forall>a b. immediately_below a b (children ?s1 ws) \<longrightarrow> b \<notin> clone ` set rs
           \<longrightarrow> immediately_below a b (children ?s' ws)"
      and i8: "\<forall>w. w \<noteq> ws \<longrightarrow> children ?s' w = children ?s1 w"
      and i9: "\<forall>a. next_actor ?s1 \<le> a \<and> a < next_actor ?s'
           \<longrightarrow> (\<exists>r \<in> set rs. shadow_clone_of ?s' (clone r) = Some a)"
      using IH unfolding records_prepared_def by blast+
    have below1: "immediately_below ?n (clone r) (children ?s1 ws)"
      using rin nr by (simp add: ch1 immediately_below_insert)
    have below': "immediately_below ?n (clone r) (children ?s' ws)"
      using i7 below1 notin by blast
    have sc': "shadow_clone_of ?s' (clone r) = Some ?n"
      using i6 notin by (simp add: sc1)
    have older: "clone_source ?s' ?n = clone_source ?s1 ?n
                   \<and> geometry_of ?s' ?n = geometry_of ?s1 ?n"
      by (rule fold_prepare_record_older) (simp add: na1)
    have src': "clone_source ?s' ?n = rwc_shadow (windowActor r)"
      and geo': "geometry_of ?s' ?n = Some (workspace_switch_box P r)"
      using older src1 geo1 by simp_all
    have c4: "next_actor ?s' = ?n + length (filter wants_shadow (r # rs))"
      using i4 True by (simp add: na1)
    have lt: "?n < next_actor ?s'"
      using c4 True by simp
    note c1 = i1
    have c2: "\<forall>a \<in> set (children ?s' ws).
                a \<in> set (children s ws) \<or> (?n \<le> a \<and> a < next_actor ?s')"
    proof
      fix a assume "a \<in> set (children ?s' ws)"
      with i2 have "a \<in> set (children ?s1 ws) \<or> (next_actor ?s1 \<le> a \<and> a < next_actor ?s')"
        by blast
      moreover have "next_actor ?s1 \<le> next_actor ?s'"
        using i4 by simp
      ultimately show "a \<in> set (children s ws) \<or> (?n \<le> a \<and> a < next_actor ?s')"
        by (auto simp: set1 na1)
    qed
    have c3: "set (children s ws) \<subseteq> set (children ?s' ws)"
      using i3 by (auto simp: set1)
    have cl: "length (children ?s' ws)
                = length (children s ws) + length (filter wants_shadow (r # rs))"
      using il True by (simp add: len1)
    have c5: "\<forall>r' \<in> set (r # rs).
           if wants_shadow r'
           then (\<exists>sh. shadow_clone_of ?s' (clone r') = Some sh \<and> ?n \<le> sh
                   \<and> sh < next_actor ?s'
                   \<and> clone_source ?s' sh = rwc_shadow (windowActor r')
                   \<and> geometry_of ?s' sh = Some (workspace_switch_box P r')
                   \<and> immediately_below sh (clone r') (children ?s' ws))
           else shadow_clone_of ?s' (clone r') = shadow_clone_of s (clone r')"
    proof
      fix r' assume "r' \<in> set (r # rs)"
      then consider "r' = r" | "r' \<in> set rs" by auto
      then show "if wants_shadow r'
           then (\<exists>sh. shadow_clone_of ?s' (clone r') = Some sh \<and> ?n \<le> sh
                   \<and> sh < next_actor ?s'
                   \<and> clone_source ?s' sh = rwc_shadow (windowActor r')
                   \<and> geometry_of ?s' sh = Some (workspace_switch_box P r')
                   \<and> immediately_below sh (clone r') (children ?s' ws))
           else shadow_clone_of ?s' (clone r') = shadow_clone_of s (clone r')"
      proof cases
        case 1
        then show ?thesis using True sc' below' src' geo' lt by simp
      next
        case 2
        with i5 have w: "if wants_shadow r'
           then (\<exists>sh. shadow_clone_of ?s' (clone r') = Some sh \<and> next_actor ?s1 \<le> sh
                   \<and> sh < next_actor ?s'
                   \<and> clone_source ?s' sh = rwc_shadow (windowActor r')
                   \<and> geometry_of ?s' sh = Some (workspace_switch_box P r')
                   \<and> immediately_below sh (clone r') (children ?s' ws))
           else shadow_clone_of ?s' (clone r') = shadow_clone_of ?s1 (clone r')"
          by blast
        have "shadow_clone_of ?s1 (clone r') = shadow_clone_of s (clone r')"
          using ne [OF 2] by (simp add: sc1)
        with w show ?thesis by (auto simp: na1 split: if_splits)
      qed
    qed
    have c6: "\<forall>c. c \<notin> clone ` set (r # rs) \<longrightarrow> shadow_clone_of ?s' c = shadow_clone_of s c"
      using i6 by (simp add: sc1)
    have c7: "\<forall>a b. immediately_below a b (children s ws) \<longrightarrow> b \<notin> clone ` set (r # rs)
           \<longrightarrow> immediately_below a b (children ?s' ws)"
    proof (intro allI impI)
      fix a b assume ab: "immediately_below a b (children s ws)" and b: "b \<notin> clone ` set (r # rs)"
      then have "immediately_below a b (children ?s1 ws)"
        by (simp add: ch1 immediately_below_keep_insert)
      with i7 b show "immediately_below a b (children ?s' ws)"
        by simp
    qed
    have c8: "\<forall>w. w \<noteq> ws \<longrightarrow> children ?s' w = children s w"
      using i8 oth1 by simp
    have c9: "\<forall>a. ?n \<le> a \<and> a < next_actor ?s'
           \<longrightarrow> (\<exists>r' \<in> set (r # rs). shadow_clone_of ?s' (clone r') = Some a)"
    proof (intro allI impI)
      fix a assume a: "?n \<le> a \<and> a < next_actor ?s'"
      show "\<exists>r' \<in> set (r # rs). shadow_clone_of ?s' (clone r') = Some a"
      proof (cases "a = ?n")
        case True
        then show ?thesis using sc' by simp
      next
        case False
        with a have "next_actor ?s1 \<le> a \<and> a < next_actor ?s'" by (simp add: na1)
        with i9 have "\<exists>r' \<in> set rs. shadow_clone_of ?s' (clone r') = Some a"
          by blast
        then show ?thesis by auto
      qed
    qed
    have "records_prepared P ws (r # rs) s ?s'"
      unfolding records_prepared_def
      using c1 c2 c3 cl c4 c5 c6 c7 c8 c9 by blast
    then show ?thesis by simp
  qed
qed

lemma fold_prepare_record_fields:
  "windowRecords (fold (prepare_record P ws) rs s) = windowRecords s"
  "display_handlers (fold (prepare_record P ws) rs s) = display_handlers s"
  "destroyed (fold (prepare_record P ws) rs s) = destroyed s"
  "faults (fold (prepare_record P ws) rs s) = faults s"
  "next_actor (fold (prepare_record P ws) rs s) = next_actor s + length (filter wants_shadow rs)"
  by (induction rs arbitrary: s) (simp_all add: prepare_record_fields)

lemma prepare_workspace_unfold:
  "prepare_workspace P ws s =
     fold (prepare_record P ws) (windowRecords s ws)
       (s\<lparr>display_handlers := display_handlers s @ [(next_handler_id s, Restacked ws)],
          actor_handlers := actor_handlers s @
             [(ws, Suc (next_handler_id s),
               WorkspaceDestroy ws (next_handler_id s) (Suc (next_handler_id s)))],
          next_handler_id := Suc (Suc (next_handler_id s))\<rparr>)"
  by (simp add: prepare_workspace_def display_connect_def actor_connect_def Let_def)

lemma prepare_workspace_fields:
  "windowRecords (prepare_workspace P ws s) = windowRecords s"
  "display_handlers (prepare_workspace P ws s) =
     display_handlers s @ [(next_handler_id s, Restacked ws)]"
  "destroyed (prepare_workspace P ws s) = destroyed s"
  "faults (prepare_workspace P ws s) = faults s"
  "next_actor (prepare_workspace P ws s) =
     next_actor s + length (filter wants_shadow (windowRecords s ws))"
  by (simp_all add: prepare_workspace_unfold fold_prepare_record_fields)

lemma fold_fold_concat: "fold (\<lambda>xs. fold f xs) xss s = fold f (concat xss) s"
  by (induction xss arbitrary: s) simp_all

lemma sum_list_const_on:
  "\<forall>x \<in> set xs. f x = (c::nat) \<Longrightarrow> sum_list (map f xs) = c * length xs"
  by (induction xs) simp_all

lemma prepareWorkspaceSwitch_groups:
  "prepareWorkspaceSwitch P monitors s = fold (prepare_workspace P) (concat monitors) s"
  by (simp add: prepareWorkspaceSwitch_def fold_fold_concat)

lemma fold_prepare_workspace_fields:
  "windowRecords (fold (prepare_workspace P) gs s) = windowRecords s"
  "destroyed (fold (prepare_workspace P) gs s) = destroyed s"
  "faults (fold (prepare_workspace P) gs s) = faults s"
  "next_actor (fold (prepare_workspace P) gs s) =
     next_actor s + (\<Sum>ws\<leftarrow>gs. length (filter wants_shadow (windowRecords s ws)))"
  by (induction gs arbitrary: s) (simp_all add: prepare_workspace_fields)

section \<open>Lemmas: finishing, and the handlers of \<^verbatim>\<open>destroy\<close>\<close>

lemma finish_record_none: "shadow_clone_of s (clone r) = None \<Longrightarrow> finish_record r s = s"
  by (simp add: finish_record_def fun_upd_idem)

lemma finish_record_fields:
  "windowRecords (finish_record r s) = windowRecords s"
  "shadow_clone_of (finish_record r s) = (shadow_clone_of s)(clone r := None)"
  "display_handlers (finish_record r s) = display_handlers s"
  "actor_handlers (finish_record r s) = actor_handlers s"
  "next_actor (finish_record r s) = next_actor s"
  by (simp_all add: finish_record_def actor_destroy_def Let_def split: option.splits)

lemma fold_finish_record_fields:
  "windowRecords (fold finish_record rs s) = windowRecords s"
  "shadow_clone_of (fold finish_record rs s) =
     (\<lambda>c. if c \<in> clone ` set rs then None else shadow_clone_of s c)"
  "display_handlers (fold finish_record rs s) = display_handlers s"
  "actor_handlers (fold finish_record rs s) = actor_handlers s"
  "next_actor (fold finish_record rs s) = next_actor s"
  by (induction rs arbitrary: s) (auto simp: finish_record_fields fun_eq_iff)

lemma finish_workspace_fields:
  "windowRecords (finish_workspace ws s) = windowRecords s"
  "shadow_clone_of (finish_workspace ws s) =
     (\<lambda>c. if c \<in> clone ` set (windowRecords s ws) then None else shadow_clone_of s c)"
  "display_handlers (finish_workspace ws s) = display_handlers s"
  "actor_handlers (finish_workspace ws s) = actor_handlers s"
  "next_actor (finish_workspace ws s) = next_actor s"
  by (simp_all add: finish_workspace_def fold_finish_record_fields)

lemma fold_finish_workspace_fields:
  "windowRecords (fold finish_workspace gs s) = windowRecords s"
  "shadow_clone_of (fold finish_workspace gs s) =
     (\<lambda>c. if c \<in> clone ` (\<Union>ws \<in> set gs. set (windowRecords s ws)) then None
          else shadow_clone_of s c)"
  "display_handlers (fold finish_workspace gs s) = display_handlers s"
  "actor_handlers (fold finish_workspace gs s) = actor_handlers s"
  "next_actor (fold finish_workspace gs s) = next_actor s"
  by (induction gs arbitrary: s) (auto simp: finish_workspace_fields fun_eq_iff)

lemma finish_loops_groups: "finish_loops monitors s = fold finish_workspace (concat monitors) s"
  by (simp add: finish_loops_def fold_fold_concat)

lemma fold_finish_record_id:
  "\<forall>r \<in> set rs. shadow_clone_of s (clone r) = None \<Longrightarrow> fold finish_record rs s = s"
  by (induction rs) (simp_all add: finish_record_none)

lemma fold_finish_workspace_id:
  "\<forall>ws \<in> set gs. \<forall>r \<in> set (windowRecords s ws). shadow_clone_of s (clone r) = None
     \<Longrightarrow> fold finish_workspace gs s = s"
  by (induction gs) (simp_all add: finish_workspace_def fold_finish_record_id)

lemma finish_loops_idem: "finish_loops monitors (finish_loops monitors s) = finish_loops monitors s"
  unfolding finish_loops_groups
  by (rule fold_finish_workspace_id) (auto simp: fold_finish_workspace_fields)

lemma actor_disconnect_handlers:
  "set (actor_handlers (actor_disconnect a i s)) \<subseteq> set (actor_handlers s)"
  "(a, i, h) \<notin> set (actor_handlers (actor_disconnect a i s))"
  by (auto simp: actor_disconnect_def image_iff)

lemma display_disconnect_handlers:
  "actor_handlers (display_disconnect i s) = actor_handlers s"
  "set (display_handlers (display_disconnect i s)) \<subseteq> set (display_handlers s)"
  "(i, h) \<notin> set (display_handlers (display_disconnect i s))"
  by (auto simp: display_disconnect_def image_iff)

lemma fold_restack_record_handlers:
  "actor_handlers (fold (restack_record ws) rs s) = actor_handlers s"
  "display_handlers (fold (restack_record ws) rs s) = display_handlers s"
  by (induction rs arbitrary: s) (simp_all add: restack_record_def split: option.splits)

lemma run_handler_actor_handlers_mono:
  "set (actor_handlers (run_handler h s)) \<subseteq> set (actor_handlers s)"
proof (cases h)
  case (Restacked w)
  then show ?thesis by (simp add: fold_restack_record_handlers)
next
  case (WorkspaceDestroy w r d)
  then show ?thesis
    using actor_disconnect_handlers(1) [of w d "display_disconnect r s"]
    by (simp add: display_disconnect_handlers)
next
  case (NotifyTranslationZ c sh)
  then show ?thesis by simp
next
  case (CloneDestroy c n d)
  then show ?thesis
    using actor_disconnect_handlers(1) [of c d "actor_disconnect c n s"]
      actor_disconnect_handlers(1) [of c n s]
    by auto
qed

lemma run_handler_removes_itself:
  "well_connected (a, i, h) \<Longrightarrow> is_destroy_handler h
     \<Longrightarrow> (a, i, h') \<notin> set (actor_handlers (run_handler h s))"
  by (cases h) (simp_all add: is_destroy_handler_def actor_disconnect_handlers)

lemma run_actor_handler_mono:
  "set (actor_handlers (run_actor_handler e s)) \<subseteq> set (actor_handlers s)"
  using run_handler_actor_handlers_mono [of "snd (snd e)" s]
  by (simp add: run_actor_handler_def)

lemma fold_run_mono:
  "set (actor_handlers (fold run_actor_handler es s)) \<subseteq> set (actor_handlers s)"
proof (induction es arbitrary: s)
  case Nil
  then show ?case by simp
next
  case (Cons e es)
  show ?case
    using Cons [of "run_actor_handler e s"] run_actor_handler_mono [of e s]
    by auto
qed

lemma run_actor_handler_removes_itself:
  "well_connected (a, i, h) \<Longrightarrow> is_destroy_handler h
     \<Longrightarrow> (a, i, h) \<notin> set (actor_handlers (run_actor_handler (a, i, h) s))"
  by (simp add: run_actor_handler_def run_handler_removes_itself)

lemma fold_run_removes:
  "\<forall>e \<in> set es. well_connected e \<and> is_destroy_handler (snd (snd e))
     \<Longrightarrow> (a, i, h) \<in> set es
     \<Longrightarrow> (a, i, h) \<notin> set (actor_handlers (fold run_actor_handler es s))"
proof (induction es arbitrary: s)
  case Nil
  then show ?case by simp
next
  case (Cons e es)
  show ?case
  proof (cases "(a, i, h) \<in> set es")
    case True
    with Cons show ?thesis by simp
  next
    case False
    with Cons.prems have e: "e = (a, i, h)" by auto
    have "(a, i, h) \<notin> set (actor_handlers (run_actor_handler e s))"
      unfolding e using Cons.prems(1)
      by (intro run_actor_handler_removes_itself) (simp_all add: e)
    then show ?thesis
      using fold_run_mono [of es "run_actor_handler e s"] by auto
  qed
qed

lemma emit_destroy_clears:
  assumes "handlers_consistent s"
  shows "filter (\<lambda>(b, i, h). b = a \<and> is_destroy_handler h) (actor_handlers (emit_destroy a s)) = []"
proof -
  let ?es = "filter (\<lambda>(b, i, h). b = a \<and> is_destroy_handler h) (actor_handlers s)"
  have wc: "\<forall>e \<in> set ?es. well_connected e \<and> is_destroy_handler (snd (snd e))"
    using assms by (auto simp: handlers_consistent_def)
  have "\<not> (b = a \<and> is_destroy_handler h)"
    if "(b, i, h) \<in> set (actor_handlers (emit_destroy a s))" for b i h
  proof
    assume c: "b = a \<and> is_destroy_handler h"
    have "(b, i, h) \<in> set (actor_handlers s)"
      using that fold_run_mono [of ?es s] by (auto simp: emit_destroy_def)
    with c have "(a, i, h) \<in> set ?es" by simp
    from fold_run_removes [OF wc this, of s] that c show False
      by (simp add: emit_destroy_def)
  qed
  then show ?thesis
    by (auto simp: filter_empty_conv)
qed

lemma emit_destroy_idem:
  "handlers_consistent s \<Longrightarrow> emit_destroy a (emit_destroy a s) = emit_destroy a s"
  using emit_destroy_clears [of s a]
  by (simp add: emit_destroy_def [of a "emit_destroy a s"])

section \<open>Lemmas: restacking\<close>

lemma restack_record_fields:
  "windowRecords (restack_record ws r s) = windowRecords s"
  "shadow_clone_of (restack_record ws r s) = shadow_clone_of s"
  "display_handlers (restack_record ws r s) = display_handlers s"
  "w \<noteq> ws \<Longrightarrow> children (restack_record ws r s) w = children s w"
  "set (children (restack_record ws r s) w) = set (children s w)"
  "distinct (children s w) \<Longrightarrow> distinct (children (restack_record ws r s) w)"
  by (auto simp: restack_record_def set_set_child_below_sibling
        distinct_set_child_below_sibling split: option.splits)

lemma restack_record_children:
  "shadow_clone_of s (clone r) = Some sh \<Longrightarrow>
     children (restack_record ws r s) ws = set_child_below_sibling sh (clone r) (children s ws)"
  "shadow_clone_of s (clone r) = None \<Longrightarrow> restack_record ws r s = s"
  by (simp_all add: restack_record_def)

lemma fold_restack_record_fields:
  "windowRecords (fold (restack_record ws) rs s) = windowRecords s"
  "shadow_clone_of (fold (restack_record ws) rs s) = shadow_clone_of s"
  "w \<noteq> ws \<Longrightarrow> children (fold (restack_record ws) rs s) w = children s w"
  "set (children (fold (restack_record ws) rs s) w) = set (children s w)"
  "distinct (children s w) \<Longrightarrow> distinct (children (fold (restack_record ws) rs s) w)"
  by (induction rs arbitrary: s) (simp_all add: restack_record_fields)

lemma restack_fold_keeps:
  "immediately_below a b (children s ws)
   \<Longrightarrow> \<forall>r \<in> set rs. \<forall>sh. shadow_clone_of s (clone r) = Some sh
         \<longrightarrow> sh \<noteq> a \<and> sh \<noteq> b \<and> clone r \<noteq> b
   \<Longrightarrow> immediately_below a b (children (fold (restack_record ws) rs s) ws)"
proof (induction rs arbitrary: s)
  case Nil
  then show ?case by simp
next
  case (Cons r rs)
  have step: "immediately_below a b (children (restack_record ws r s) ws)"
  proof (cases "shadow_clone_of s (clone r)")
    case None
    then show ?thesis using Cons.prems(1) by (simp add: restack_record_children)
  next
    case (Some sh)
    with Cons.prems(2) have "sh \<noteq> a" "sh \<noteq> b" "clone r \<noteq> b" by auto
    with Some Cons.prems(1) show ?thesis
      by (simp add: restack_record_children immediately_below_keep_set_child)
  qed
  show ?case
    using Cons.IH [OF step] Cons.prems(2) by (simp add: restack_record_fields)
qed

lemma restack_fold_stacks:
  "distinct (map clone rs)
   \<Longrightarrow> \<forall>r \<in> set rs. \<forall>sh. shadow_clone_of s (clone r) = Some sh \<longrightarrow>
          clone r \<in> set (children s ws) \<and> sh \<in> set (children s ws)
          \<and> sh \<notin> clone ` set rs
          \<and> (\<forall>r' \<in> set rs. shadow_clone_of s (clone r') = Some sh \<longrightarrow> clone r' = clone r)
   \<Longrightarrow> \<forall>r \<in> set rs. \<forall>sh. shadow_clone_of s (clone r) = Some sh \<longrightarrow>
          immediately_below sh (clone r) (children (fold (restack_record ws) rs s) ws)"
proof (induction rs arbitrary: s)
  case Nil
  then show ?case by simp
next
  case (Cons r rs)
  let ?s1 = "restack_record ws r s"
  have drs: "distinct (map clone rs)" and notin: "clone r \<notin> clone ` set rs"
    using Cons.prems(1) by auto
  have pre1: "\<forall>r \<in> set rs. \<forall>sh. shadow_clone_of ?s1 (clone r) = Some sh \<longrightarrow>
          clone r \<in> set (children ?s1 ws) \<and> sh \<in> set (children ?s1 ws)
          \<and> sh \<notin> clone ` set rs
          \<and> (\<forall>r' \<in> set rs. shadow_clone_of ?s1 (clone r') = Some sh \<longrightarrow> clone r' = clone r)"
  proof (intro ballI allI impI)
    fix r' sh assume r': "r' \<in> set rs" and "shadow_clone_of ?s1 (clone r') = Some sh"
    then have sc: "shadow_clone_of s (clone r') = Some sh"
      by (simp add: restack_record_fields)
    have "r' \<in> set (r # rs)" using r' by simp
    from Cons.prems(2) [rule_format, OF this sc]
    show "clone r' \<in> set (children ?s1 ws) \<and> sh \<in> set (children ?s1 ws)
          \<and> sh \<notin> clone ` set rs
          \<and> (\<forall>r'' \<in> set rs. shadow_clone_of ?s1 (clone r'') = Some sh \<longrightarrow> clone r'' = clone r')"
      by (simp add: restack_record_fields)
  qed
  have IH: "\<forall>r \<in> set rs. \<forall>sh. shadow_clone_of ?s1 (clone r) = Some sh \<longrightarrow>
          immediately_below sh (clone r) (children (fold (restack_record ws) rs ?s1) ws)"
    using Cons.IH [OF drs pre1] .
  have head: "immediately_below sh (clone r) (children (fold (restack_record ws) rs ?s1) ws)"
    if sc: "shadow_clone_of s (clone r) = Some sh" for sh
  proof -
    have "r \<in> set (r # rs)" by simp
    from Cons.prems(2) [rule_format, OF this sc]
    have f: "clone r \<in> set (children s ws)" "sh \<in> set (children s ws)"
      "sh \<notin> clone ` set (r # rs)"
      "\<forall>r' \<in> set (r # rs). shadow_clone_of s (clone r') = Some sh \<longrightarrow> clone r' = clone r"
      by simp_all
    have ne: "sh \<noteq> clone r" using f(3) by auto
    have b1: "immediately_below sh (clone r) (children ?s1 ws)"
      using f(1) f(2) ne
      by (simp add: restack_record_children(1) [OF sc] immediately_below_set_child)
    have others: "\<forall>r' \<in> set rs. \<forall>sh'. shadow_clone_of ?s1 (clone r') = Some sh'
         \<longrightarrow> sh' \<noteq> sh \<and> sh' \<noteq> clone r \<and> clone r' \<noteq> clone r"
    proof (intro ballI allI impI)
      fix r' sh' assume r': "r' \<in> set rs" and sc': "shadow_clone_of ?s1 (clone r') = Some sh'"
      have cne: "clone r' \<noteq> clone r" using r' notin by (metis imageI)
      have sc'': "shadow_clone_of s (clone r') = Some sh'"
        using sc' by (simp add: restack_record_fields)
      have "r' \<in> set (r # rs)" using r' by simp
      from Cons.prems(2) [rule_format, OF this sc'']
      have "sh' \<notin> clone ` set (r # rs)" by simp
      then have "sh' \<noteq> clone r" by auto
      moreover have "sh' \<noteq> sh"
      proof
        assume "sh' = sh"
        with sc'' have "shadow_clone_of s (clone r') = Some sh" by simp
        from f(4) [rule_format, OF \<open>r' \<in> set (r # rs)\<close> this]
        have "clone r' = clone r" .
        with cne show False by simp
      qed
      ultimately show "sh' \<noteq> sh \<and> sh' \<noteq> clone r \<and> clone r' \<noteq> clone r"
        using cne by simp
    qed
    show ?thesis using restack_fold_keeps [OF b1 others] .
  qed
  show ?case
  proof (intro ballI allI impI)
    fix r' sh assume r': "r' \<in> set (r # rs)" and sc: "shadow_clone_of s (clone r') = Some sh"
    show "immediately_below sh (clone r') (children (fold (restack_record ws) (r # rs) s) ws)"
    proof (cases "r' = r")
      case True
      with head sc show ?thesis by simp
    next
      case False
      with r' have "r' \<in> set rs" by simp
      moreover have "shadow_clone_of ?s1 (clone r') = Some sh"
        using sc by (simp add: restack_record_fields)
      ultimately show ?thesis using IH by simp
    qed
  qed
qed

lemma group_ok_transfer:
  assumes ok: "group_ok s ws"
    and wr: "windowRecords s' ws = windowRecords s ws"
    and st: "set (children s' ws) = set (children s ws)"
    and di: "distinct (children s' ws)"
    and sc: "\<And>r. r \<in> set (windowRecords s ws)
           \<Longrightarrow> shadow_clone_of s' (clone r) = shadow_clone_of s (clone r)"
  shows "group_ok s' ws"
proof -
  let ?rs = "windowRecords s ws"
  have d: "distinct (map clone ?rs)"
    and c: "\<And>r sh. r \<in> set ?rs \<Longrightarrow> shadow_clone_of s (clone r) = Some sh \<Longrightarrow>
           clone r \<in> set (children s ws) \<and> sh \<in> set (children s ws)
           \<and> sh \<notin> clone ` set ?rs
           \<and> (\<forall>r' \<in> set ?rs. shadow_clone_of s (clone r') = Some sh \<longrightarrow> clone r' = clone r)"
    using ok unfolding group_ok_def by blast+
  have "\<forall>r \<in> set ?rs. \<forall>sh. shadow_clone_of s' (clone r) = Some sh \<longrightarrow>
           clone r \<in> set (children s' ws) \<and> sh \<in> set (children s' ws)
           \<and> sh \<notin> clone ` set ?rs
           \<and> (\<forall>r' \<in> set ?rs. shadow_clone_of s' (clone r') = Some sh \<longrightarrow> clone r' = clone r)"
  proof (intro ballI allI impI)
    fix r sh assume r: "r \<in> set ?rs" and "shadow_clone_of s' (clone r) = Some sh"
    then have "shadow_clone_of s (clone r) = Some sh" by (simp add: sc)
    from c [OF r this] show "clone r \<in> set (children s' ws) \<and> sh \<in> set (children s' ws)
           \<and> sh \<notin> clone ` set ?rs
           \<and> (\<forall>r' \<in> set ?rs. shadow_clone_of s' (clone r') = Some sh \<longrightarrow> clone r' = clone r)"
      by (simp add: st sc)
  qed
  with d di show ?thesis
    unfolding group_ok_def wr by blast
qed

lemma shadows_stacked_cong:
  assumes "windowRecords s' ws = windowRecords s ws"
    and "children s' ws = children s ws"
    and "\<And>r. r \<in> set (windowRecords s ws)
           \<Longrightarrow> shadow_clone_of s' (clone r) = shadow_clone_of s (clone r)"
  shows "shadows_stacked s' ws = shadows_stacked s ws"
  unfolding shadows_stacked_def assms(1) assms(2)
  by (intro ball_cong refl) (simp add: assms(3))

lemma run_restacked_stacks:
  assumes "group_ok s ws"
  shows "shadows_stacked (run_handler (Restacked ws) s) ws"
proof -
  let ?rs = "windowRecords s ws"
  have "\<forall>r \<in> set ?rs. \<forall>sh. shadow_clone_of s (clone r) = Some sh \<longrightarrow>
          immediately_below sh (clone r) (children (fold (restack_record ws) ?rs s) ws)"
    using assms by (intro restack_fold_stacks) (auto simp: group_ok_def)
  then show ?thesis
    by (auto simp: shadows_stacked_def fold_restack_record_fields split: option.splits)
qed

lemma run_restacked_group_ok:
  assumes "group_ok s ws"
  shows "group_ok (run_handler (Restacked w) s) ws"
proof -
  have "distinct (children s ws)" using assms by (simp add: group_ok_def)
  then show ?thesis
    by (intro group_ok_transfer [OF assms]) (simp_all add: fold_restack_record_fields)
qed

lemma is_restacked_iff: "is_restacked h \<longleftrightarrow> (\<exists>w. h = Restacked w)"
  by (cases h) (simp_all add: is_restacked_def)

lemma fold_run_restacked_all:
  "\<forall>e \<in> set hs. is_restacked (snd e) \<Longrightarrow>
     windowRecords (fold (\<lambda>(i, h). run_handler h) hs s) = windowRecords s
     \<and> shadow_clone_of (fold (\<lambda>(i, h). run_handler h) hs s) = shadow_clone_of s
     \<and> display_handlers (fold (\<lambda>(i, h). run_handler h) hs s) = display_handlers s
     \<and> set (children (fold (\<lambda>(i, h). run_handler h) hs s) ws) = set (children s ws)"
proof (induction hs arbitrary: s)
  case Nil
  then show ?case by simp
next
  case (Cons e hs)
  obtain i w where e: "e = (i, Restacked w)"
    using Cons.prems by (cases e) (auto simp: is_restacked_iff)
  have rest: "\<forall>e \<in> set hs. is_restacked (snd e)" using Cons.prems by simp
  show ?case
    using Cons.IH [OF rest, of "run_handler (Restacked w) s"]
    by (simp add: e fold_restack_record_fields fold_restack_record_handlers)
qed

lemma fold_run_restacked_fields:
  assumes "\<forall>e \<in> set hs. is_restacked (snd e)"
  shows "windowRecords (fold (\<lambda>(i, h). run_handler h) hs s) = windowRecords s"
    and "shadow_clone_of (fold (\<lambda>(i, h). run_handler h) hs s) = shadow_clone_of s"
    and "display_handlers (fold (\<lambda>(i, h). run_handler h) hs s) = display_handlers s"
    and "set (children (fold (\<lambda>(i, h). run_handler h) hs s) ws) = set (children s ws)"
  using fold_run_restacked_all [OF assms] by simp_all

lemma fold_run_display_handler:
  "\<forall>e \<in> set hs. is_restacked (snd e) \<Longrightarrow> set hs \<subseteq> set (display_handlers s)
     \<Longrightarrow> fold run_display_handler hs s = fold (\<lambda>(i, h). run_handler h) hs s"
proof (induction hs arbitrary: s)
  case Nil
  then show ?case by simp
next
  case (Cons e hs)
  obtain i w where e: "e = (i, Restacked w)"
    using Cons.prems by (cases e) (auto simp: is_restacked_iff)
  have rest: "\<forall>e \<in> set hs. is_restacked (snd e)" using Cons.prems by simp
  have run: "run_display_handler e s = run_handler (Restacked w) s"
    using Cons.prems(2) by (simp add: run_display_handler_def e)
  have "display_handlers (run_handler (Restacked w) s) = display_handlers s"
    by (simp add: fold_restack_record_handlers)
  then have sub: "set hs \<subseteq> set (display_handlers (run_handler (Restacked w) s))"
    using Cons.prems(2) by simp
  have "fold run_display_handler (e # hs) s
          = fold run_display_handler hs (run_handler (Restacked w) s)"
    by (simp add: run)
  also have "\<dots> = fold (\<lambda>(i, h). run_handler h) hs (run_handler (Restacked w) s)"
    using rest sub by (rule Cons.IH)
  also have "\<dots> = fold (\<lambda>(i, h). run_handler h) (e # hs) s"
    by (simp add: e)
  finally show ?case .
qed

lemma emit_restacked_fold:
  "\<forall>e \<in> set (display_handlers s). is_restacked (snd e)
     \<Longrightarrow> emit_restacked s = fold (\<lambda>(i, h). run_handler h) (display_handlers s) s"
  unfolding emit_restacked_def by (rule fold_run_display_handler) simp_all

lemma fold_run_group_ok:
  "group_ok s ws \<Longrightarrow> \<forall>e \<in> set hs. is_restacked (snd e)
     \<Longrightarrow> group_ok (fold (\<lambda>(i, h). run_handler h) hs s) ws"
proof (induction hs arbitrary: s)
  case Nil
  then show ?case by simp
next
  case (Cons e hs)
  obtain i w where e: "e = (i, Restacked w)"
    using Cons.prems by (cases e) (auto simp: is_restacked_iff)
  have "group_ok (run_handler (Restacked w) s) ws"
    using Cons.prems(1) by (rule run_restacked_group_ok)
  then show ?case
    using Cons.IH [of "run_handler (Restacked w) s"] Cons.prems(2) by (simp add: e)
qed

lemma run_restacked_other_stacked:
  assumes "shadows_stacked s ws" "w \<noteq> ws"
  shows "shadows_stacked (run_handler (Restacked w) s) ws"
proof -
  have "shadows_stacked (run_handler (Restacked w) s) ws = shadows_stacked s ws"
    using assms(2) by (intro shadows_stacked_cong) (simp_all add: fold_restack_record_fields)
  with assms(1) show ?thesis by simp
qed

lemma fold_run_stacks:
  "group_ok s ws \<Longrightarrow> \<forall>e \<in> set hs. is_restacked (snd e)
     \<Longrightarrow> shadows_stacked s ws \<or> (\<exists>i. (i, Restacked ws) \<in> set hs)
     \<Longrightarrow> shadows_stacked (fold (\<lambda>(i, h). run_handler h) hs s) ws"
proof (induction hs arbitrary: s)
  case Nil
  then show ?case by simp
next
  case (Cons e hs)
  obtain i w where e: "e = (i, Restacked w)"
    using Cons.prems by (cases e) (auto simp: is_restacked_iff)
  let ?s1 = "run_handler (Restacked w) s"
  have ok1: "group_ok ?s1 ws"
    using Cons.prems(1) by (rule run_restacked_group_ok)
  have rest: "\<forall>e \<in> set hs. is_restacked (snd e)" using Cons.prems(2) by simp
  have "shadows_stacked ?s1 ws \<or> (\<exists>i. (i, Restacked ws) \<in> set hs)"
  proof (cases "w = ws")
    case True
    then show ?thesis using run_restacked_stacks [OF Cons.prems(1)] by simp
  next
    case False
    show ?thesis
    proof (cases "shadows_stacked s ws")
      case True
      then show ?thesis using run_restacked_other_stacked [OF _ False] by simp
    next
      case nst: False
      with Cons.prems(3) obtain j where "(j, Restacked ws) \<in> set (e # hs)" by blast
      with False e have "(j, Restacked ws) \<in> set hs" by simp
      then show ?thesis by blast
    qed
  qed
  from Cons.IH [OF ok1 rest this] show ?case by (simp add: e)
qed

lemma group_ok_reorder:
  assumes "group_ok s ws" "mset (order ws) = mset (children s ws)"
  shows "group_ok (s\<lparr>children := order\<rparr>) ws"
proof -
  have "set (order ws) = set (children s ws)"
    using assms(2) by (rule mset_eq_setD)
  moreover have "distinct (order ws)"
    using assms by (metis group_ok_def mset_eq_imp_distinct_iff)
  ultimately show ?thesis
    by (intro group_ok_transfer [OF assms(1)]) simp_all
qed

lemma restack_event_session:
  assumes "restack_event s s'" "session_ok s gs"
  shows "session_ok s' gs \<and> (\<forall>ws \<in> set gs. shadows_stacked s' ws)"
  using assms
proof (cases rule: restack_event.cases)
  case (restack order)
  let ?s0 = "s\<lparr>children := order\<rparr>"
  have hs: "\<forall>e \<in> set (display_handlers ?s0). is_restacked (snd e)"
    using assms(2) by (simp add: session_ok_def)
  have es: "s' = fold (\<lambda>(i, h). run_handler h) (display_handlers s) ?s0"
    using emit_restacked_fold [OF hs] by (simp add: restack(1))
  have hs': "\<forall>e \<in> set (display_handlers s). is_restacked (snd e)"
    using hs by simp
  have dh: "display_handlers s' = display_handlers s"
    unfolding es using fold_run_restacked_fields(3) [OF hs', of ?s0] by simp
  have each: "group_ok s' ws \<and> shadows_stacked s' ws
                \<and> (\<exists>i. (i, Restacked ws) \<in> set (display_handlers s'))"
    if ws: "ws \<in> set gs" for ws
  proof -
    have ok: "group_ok s ws" and con: "\<exists>i. (i, Restacked ws) \<in> set (display_handlers s)"
      using assms(2) ws by (simp_all add: session_ok_def)
    have ok0: "group_ok ?s0 ws"
      using ok restack(2) by (rule group_ok_reorder)
    have con0: "shadows_stacked ?s0 ws \<or> (\<exists>i. (i, Restacked ws) \<in> set (display_handlers s))"
      using con by simp
    have "group_ok s' ws"
      unfolding es using ok0 hs' by (rule fold_run_group_ok)
    moreover have "shadows_stacked s' ws"
      unfolding es using ok0 hs' con0 by (rule fold_run_stacks)
    ultimately show ?thesis
      using con by (simp add: dh)
  qed
  have "\<forall>e \<in> set (display_handlers s'). is_restacked (snd e)"
    using hs' by (simp add: dh)
  with each show ?thesis
    unfolding session_ok_def by blast
qed

lemma restack_events_session:
  assumes "restack_event\<^sup>*\<^sup>* s s'" "session_ok s gs" "\<forall>ws \<in> set gs. shadows_stacked s ws"
  shows "session_ok s' gs \<and> (\<forall>ws \<in> set gs. shadows_stacked s' ws)"
  using assms
proof (induction rule: rtranclp_induct)
  case base
  then show ?case by simp
next
  case (step y z)
  then show ?case using restack_event_session [of y z gs] by blast
qed

section \<open>Lemmas: the state after the preparation\<close>

lemma immediately_below_unique:
  "distinct xs \<Longrightarrow> immediately_below a b xs \<Longrightarrow> immediately_below a c xs \<Longrightarrow> b = c"
proof (induction a b xs rule: immediately_below.induct)
  case (1 a b x y ys)
  show ?case
  proof (cases "x = a")
    case True
    then have "a \<notin> set (y # ys)" using 1(2) by auto
    then have "\<not> immediately_below a b (y # ys)" "\<not> immediately_below a c (y # ys)"
      using immediately_below_in_set by blast+
    with 1(3) 1(4) True show ?thesis by simp
  next
    case False
    with 1 show ?thesis by simp
  qed
qed auto

lemma records_prepared_cong:
  "children t = children s \<Longrightarrow> next_actor t = next_actor s
     \<Longrightarrow> shadow_clone_of t = shadow_clone_of s
     \<Longrightarrow> records_prepared P ws rs t s' = records_prepared P ws rs s s'"
  by (simp add: records_prepared_def)

lemma group_ready_built: "group_ready s ws \<Longrightarrow> group_built s ws"
  by (simp add: group_ready_def group_built_def)

lemma prepare_workspace_records:
  assumes "group_built s ws"
  shows "records_prepared P ws (windowRecords s ws) s (prepare_workspace P ws s)"
proof -
  define s2 where "s2 = s\<lparr>display_handlers := display_handlers s @ [(next_handler_id s, Restacked ws)],
          actor_handlers := actor_handlers s @
             [(ws, Suc (next_handler_id s),
               WorkspaceDestroy ws (next_handler_id s) (Suc (next_handler_id s)))],
          next_handler_id := Suc (Suc (next_handler_id s))\<rparr>"
  have f: "children s2 = children s" "next_actor s2 = next_actor s"
    "shadow_clone_of s2 = shadow_clone_of s"
    by (simp_all add: s2_def)
  have "records_prepared P ws (windowRecords s ws) s2
          (fold (prepare_record P ws) (windowRecords s ws) s2)"
    using assms by (intro prepare_records_post) (simp_all add: group_built_def f)
  then have "records_prepared P ws (windowRecords s ws) s
          (fold (prepare_record P ws) (windowRecords s ws) s2)"
    by (simp only: records_prepared_cong [OF f])
  moreover have "prepare_workspace P ws s = fold (prepare_record P ws) (windowRecords s ws) s2"
    by (simp add: prepare_workspace_unfold s2_def)
  ultimately show ?thesis by simp
qed

lemma prepared_group_ok:
  assumes ready: "group_ready s ws"
    and rp: "records_prepared P ws (windowRecords s ws) s s'"
    and wr: "windowRecords s' ws = windowRecords s ws"
  shows "group_ok s' ws \<and> shadows_stacked s' ws"
proof -
  let ?rs = "windowRecords s ws"
  have d: "distinct (map clone ?rs)"
    and old: "\<And>a. a \<in> set (children s ws) \<Longrightarrow> a < next_actor s"
    and cin: "\<And>r. r \<in> set ?rs \<Longrightarrow> clone r \<in> set (children s ws)"
    and none: "\<And>r. r \<in> set ?rs \<Longrightarrow> shadow_clone_of s (clone r) = None"
    using ready unfolding group_ready_def by blast+
  have i1: "distinct (children s' ws)"
    and i3: "set (children s ws) \<subseteq> set (children s' ws)"
    and i5': "\<forall>r \<in> set ?rs.
           if wants_shadow r
           then (\<exists>sh. shadow_clone_of s' (clone r) = Some sh \<and> next_actor s \<le> sh
                   \<and> sh < next_actor s'
                   \<and> clone_source s' sh = rwc_shadow (windowActor r)
                   \<and> geometry_of s' sh = Some (workspace_switch_box P r)
                   \<and> immediately_below sh (clone r) (children s' ws))
           else shadow_clone_of s' (clone r) = shadow_clone_of s (clone r)"
    using rp unfolding records_prepared_def by blast+
  have i5: "if wants_shadow r
           then (\<exists>sh. shadow_clone_of s' (clone r) = Some sh \<and> next_actor s \<le> sh
                   \<and> immediately_below sh (clone r) (children s' ws))
           else shadow_clone_of s' (clone r) = None"
    if "r \<in> set ?rs" for r
    using i5' [rule_format, OF that] none [OF that] by (auto split: if_splits)
  have below: "immediately_below sh (clone r) (children s' ws) \<and> next_actor s \<le> sh"
    if "r \<in> set ?rs" "shadow_clone_of s' (clone r) = Some sh" for r sh
    using i5 [OF that(1)] that(2) by (auto split: if_splits)
  have ok: "clone r \<in> set (children s' ws) \<and> sh \<in> set (children s' ws)
           \<and> sh \<notin> clone ` set ?rs
           \<and> (\<forall>r' \<in> set ?rs. shadow_clone_of s' (clone r') = Some sh \<longrightarrow> clone r' = clone r)"
    if r: "r \<in> set ?rs" and sc: "shadow_clone_of s' (clone r) = Some sh" for r sh
  proof -
    have b: "immediately_below sh (clone r) (children s' ws)" and n: "next_actor s \<le> sh"
      using below [OF r sc] by simp_all
    have "sh \<notin> clone ` set ?rs"
    proof
      assume "sh \<in> clone ` set ?rs"
      then obtain r' where "r' \<in> set ?rs" "sh = clone r'" by auto
      then have "sh < next_actor s" using cin old by simp
      with n show False by simp
    qed
    moreover have "clone r' = clone r"
      if "r' \<in> set ?rs" "shadow_clone_of s' (clone r') = Some sh" for r'
      using immediately_below_unique [OF i1 _ b] below [OF that] by simp
    ultimately show ?thesis
      using immediately_below_in_set [OF b] by blast
  qed
  have "group_ok s' ws"
    unfolding group_ok_def wr using i1 d ok by blast
  moreover have "shadows_stacked s' ws"
    unfolding shadows_stacked_def wr using below by (auto split: option.splits)
  ultimately show ?thesis by simp
qed

lemma fold_prepare_record_frame:
  "w \<noteq> ws \<Longrightarrow> children (fold (prepare_record P ws) rs s) w = children s w"
  "c \<notin> clone ` set rs \<Longrightarrow> shadow_clone_of (fold (prepare_record P ws) rs s) c = shadow_clone_of s c"
  by (induction rs arbitrary: s) (simp_all add: prepare_record_fields)

lemma prepare_workspace_frame:
  "w \<noteq> ws \<Longrightarrow> children (prepare_workspace P ws s) w = children s w"
  "c \<notin> clone ` set (windowRecords s ws)
     \<Longrightarrow> shadow_clone_of (prepare_workspace P ws s) c = shadow_clone_of s c"
  by (simp_all add: prepare_workspace_unfold fold_prepare_record_frame)

lemma fold_prepare_workspace_children:
  "w \<notin> set gs \<Longrightarrow> children (fold (prepare_workspace P) gs s) w = children s w"
  by (induction gs arbitrary: s) (simp_all add: prepare_workspace_frame)

lemma fold_prepare_workspace_shadow:
  "c \<notin> clone ` (\<Union>ws \<in> set gs. set (windowRecords s ws))
     \<Longrightarrow> shadow_clone_of (fold (prepare_workspace P) gs s) c = shadow_clone_of s c"
proof (induction gs arbitrary: s)
  case Nil
  then show ?case by simp
next
  case (Cons g gs)
  have "c \<notin> clone ` set (windowRecords s g)"
    and "c \<notin> clone ` (\<Union>ws \<in> set gs. set (windowRecords (prepare_workspace P g s) ws))"
    using Cons.prems by (auto simp: prepare_workspace_fields)
  then show ?case
    using Cons.IH [of "prepare_workspace P g s"] by (simp add: prepare_workspace_frame)
qed

lemma group_ready_after_other:
  assumes ready: "group_ready s ws" and ne: "ws \<noteq> g"
    and disj: "\<And>r. r \<in> set (windowRecords s ws) \<Longrightarrow> clone r \<notin> clone ` set (windowRecords s g)"
  shows "group_ready (prepare_workspace P g s) ws"
proof -
  let ?s1 = "prepare_workspace P g s"
  have ch: "children ?s1 ws = children s ws"
    using ne by (simp add: prepare_workspace_frame)
  have wr: "windowRecords ?s1 ws = windowRecords s ws"
    by (simp add: prepare_workspace_fields)
  have na: "next_actor s \<le> next_actor ?s1"
    by (simp add: prepare_workspace_fields)
  have sc: "shadow_clone_of ?s1 (clone r) = shadow_clone_of s (clone r)"
    if "r \<in> set (windowRecords s ws)" for r
    using disj [OF that] by (simp add: prepare_workspace_frame)
  have a: "distinct (children s ws)" and b: "\<And>a. a \<in> set (children s ws) \<Longrightarrow> a < next_actor s"
    and c: "distinct (map clone (windowRecords s ws))"
    and d: "\<And>r. r \<in> set (windowRecords s ws) \<Longrightarrow>
              clone r \<in> set (children s ws) \<and> shadow_clone_of s (clone r) = None"
    using ready unfolding group_ready_def by blast+
  have "\<forall>a \<in> set (children s ws). a < next_actor ?s1"
    using b na by fastforce
  moreover have "\<forall>r \<in> set (windowRecords s ws).
              clone r \<in> set (children s ws) \<and> shadow_clone_of ?s1 (clone r) = None"
    using d sc by simp
  ultimately show ?thesis
    unfolding group_ready_def ch wr using a c by blast
qed

lemma prepare_session_groups:
  "distinct gs \<Longrightarrow> distinct (map clone (concat (map (windowRecords s) gs)))
   \<Longrightarrow> \<forall>ws \<in> set gs. group_ready s ws
   \<Longrightarrow> (\<forall>ws \<in> set gs. group_ok (fold (prepare_workspace P) gs s) ws
                       \<and> shadows_stacked (fold (prepare_workspace P) gs s) ws)
       \<and> (\<forall>a. next_actor s \<le> a \<and> a < next_actor (fold (prepare_workspace P) gs s)
             \<longrightarrow> (\<exists>ws \<in> set gs. \<exists>r \<in> set (windowRecords s ws).
                    shadow_clone_of (fold (prepare_workspace P) gs s) (clone r) = Some a))"
proof (induction gs arbitrary: s)
  case Nil
  then show ?case by simp
next
  case (Cons g gs)
  let ?s1 = "prepare_workspace P g s"
  let ?s' = "fold (prepare_workspace P) gs ?s1"
  have wr1: "windowRecords ?s1 = windowRecords s"
    by (simp add: prepare_workspace_fields)
  have wr': "windowRecords ?s' = windowRecords s"
    by (simp add: fold_prepare_workspace_fields wr1)
  have g_notin: "g \<notin> set gs" and dgs: "distinct gs"
    using Cons.prems(1) by simp_all
  have dcl: "distinct (map clone (concat (map (windowRecords s) gs)))"
    and disj: "set (map clone (windowRecords s g))
                 \<inter> set (map clone (concat (map (windowRecords s) gs))) = {}"
    using Cons.prems(2) by simp_all
  have sep: "clone r \<notin> clone ` set (windowRecords s g)"
    if "ws \<in> set gs" "r \<in> set (windowRecords s ws)" for ws r
  proof
    assume "clone r \<in> clone ` set (windowRecords s g)"
    moreover have "clone r \<in> set (map clone (concat (map (windowRecords s) gs)))"
      using that by auto
    ultimately show False using disj by auto
  qed
  have sep2: "clone r \<notin> clone ` (\<Union>ws \<in> set gs. set (windowRecords ?s1 ws))"
    if "r \<in> set (windowRecords s g)" for r
  proof
    assume "clone r \<in> clone ` (\<Union>ws \<in> set gs. set (windowRecords ?s1 ws))"
    then have "clone r \<in> set (map clone (concat (map (windowRecords s) gs)))"
      by (auto simp: wr1)
    moreover have "clone r \<in> set (map clone (windowRecords s g))"
      using that by simp
    ultimately show False using disj by auto
  qed
  have ready_g: "group_ready s g" using Cons.prems(3) by simp
  have ready1: "\<forall>ws \<in> set gs. group_ready ?s1 ws"
  proof
    fix ws assume ws: "ws \<in> set gs"
    then have "ws \<noteq> g" using g_notin by auto
    moreover have "group_ready s ws" using Cons.prems(3) ws by simp
    ultimately show "group_ready ?s1 ws"
      using sep [OF ws] by (intro group_ready_after_other)
  qed
  have IH: "(\<forall>ws \<in> set gs. group_ok ?s' ws \<and> shadows_stacked ?s' ws)
       \<and> (\<forall>a. next_actor ?s1 \<le> a \<and> a < next_actor ?s'
             \<longrightarrow> (\<exists>ws \<in> set gs. \<exists>r \<in> set (windowRecords ?s1 ws).
                    shadow_clone_of ?s' (clone r) = Some a))"
    using Cons.IH [of ?s1] dgs dcl ready1 by (simp add: wr1)
  have rp: "records_prepared P g (windowRecords s g) s ?s1"
    using ready_g by (intro prepare_workspace_records group_ready_built)
  have g1: "group_ok ?s1 g \<and> shadows_stacked ?s1 g"
    using ready_g rp by (rule prepared_group_ok) (simp add: wr1)
  have chg: "children ?s' g = children ?s1 g"
    using g_notin by (simp add: fold_prepare_workspace_children)
  have scg: "shadow_clone_of ?s' (clone r) = shadow_clone_of ?s1 (clone r)"
    if "r \<in> set (windowRecords s g)" for r
    using sep2 [OF that] by (rule fold_prepare_workspace_shadow)
  have g': "group_ok ?s' g \<and> shadows_stacked ?s' g"
  proof
    show "group_ok ?s' g"
      using g1 by (intro group_ok_transfer [of ?s1 g ?s']) (simp_all add: wr' wr1 chg scg group_ok_def)
    have "shadows_stacked ?s' g = shadows_stacked ?s1 g"
      by (intro shadows_stacked_cong) (simp_all add: wr' wr1 chg scg)
    then show "shadows_stacked ?s' g" using g1 by simp
  qed
  have created: "\<exists>ws \<in> set (g # gs). \<exists>r \<in> set (windowRecords s ws).
                    shadow_clone_of ?s' (clone r) = Some a"
    if a: "next_actor s \<le> a \<and> a < next_actor ?s'" for a
  proof (cases "a < next_actor ?s1")
    case True
    have "\<forall>a. next_actor s \<le> a \<and> a < next_actor ?s1
           \<longrightarrow> (\<exists>r \<in> set (windowRecords s g). shadow_clone_of ?s1 (clone r) = Some a)"
      using rp unfolding records_prepared_def by blast
    with a True obtain r where r: "r \<in> set (windowRecords s g)"
      and "shadow_clone_of ?s1 (clone r) = Some a" by blast
    then have "shadow_clone_of ?s' (clone r) = Some a" by (simp add: scg)
    with r show ?thesis by auto
  next
    case False
    with a IH obtain ws r where "ws \<in> set gs" "r \<in> set (windowRecords ?s1 ws)"
      "shadow_clone_of ?s' (clone r) = Some a"
      by (metis not_less)
    then show ?thesis by (auto simp: wr1)
  qed
  show ?case
    using IH g' created by simp
qed

lemma prepare_record_consistent:
  "handlers_consistent s \<Longrightarrow> handlers_consistent (prepare_record P ws r s)"
  by (auto simp: handlers_consistent_def prepare_record_handlers)

lemma prepare_record_handlers_mono:
  "set (actor_handlers s) \<subseteq> set (actor_handlers (prepare_record P ws r s))"
  by (auto simp: prepare_record_handlers)

lemma fold_prepare_record_handlers:
  "handlers_consistent s \<Longrightarrow> handlers_consistent (fold (prepare_record P ws) rs s)"
  "set (actor_handlers s) \<subseteq> set (actor_handlers (fold (prepare_record P ws) rs s))"
proof (induction rs arbitrary: s)
  case Nil
  { case 1 then show ?case by simp
  next case 2 show ?case by simp }
next
  case (Cons r rs)
  { case 1 then show ?case
      using Cons.IH(1) [of "prepare_record P ws r s"] by (simp add: prepare_record_consistent)
  next case 2 show ?case
      using Cons.IH(2) [of "prepare_record P ws r s"] prepare_record_handlers_mono [of s P ws r]
      by auto }
qed

lemma prepare_workspace_handlers:
  "handlers_consistent s \<Longrightarrow> handlers_consistent (prepare_workspace P ws s)"
  "set (actor_handlers s) \<subseteq> set (actor_handlers (prepare_workspace P ws s))"
  "(ws, Suc (next_handler_id s), WorkspaceDestroy ws (next_handler_id s) (Suc (next_handler_id s)))
     \<in> set (actor_handlers (prepare_workspace P ws s))"
proof -
  let ?s2 = "s\<lparr>display_handlers := display_handlers s @ [(next_handler_id s, Restacked ws)],
          actor_handlers := actor_handlers s @
             [(ws, Suc (next_handler_id s),
               WorkspaceDestroy ws (next_handler_id s) (Suc (next_handler_id s)))],
          next_handler_id := Suc (Suc (next_handler_id s))\<rparr>"
  have sub: "set (actor_handlers ?s2)
               \<subseteq> set (actor_handlers (fold (prepare_record P ws) (windowRecords s ws) ?s2))"
    by (rule fold_prepare_record_handlers(2))
  show "handlers_consistent s \<Longrightarrow> handlers_consistent (prepare_workspace P ws s)"
  proof -
    assume "handlers_consistent s"
    then have "handlers_consistent ?s2" by (simp add: handlers_consistent_def)
    then show ?thesis
      unfolding prepare_workspace_unfold by (rule fold_prepare_record_handlers(1))
  qed
  show "set (actor_handlers s) \<subseteq> set (actor_handlers (prepare_workspace P ws s))"
    using sub unfolding prepare_workspace_unfold by auto
  show "(ws, Suc (next_handler_id s),
          WorkspaceDestroy ws (next_handler_id s) (Suc (next_handler_id s)))
     \<in> set (actor_handlers (prepare_workspace P ws s))"
    using sub unfolding prepare_workspace_unfold by auto
qed

lemma prepare_session_handlers:
  "handlers_consistent s \<Longrightarrow> \<forall>e \<in> set (display_handlers s). is_restacked (snd e)
   \<Longrightarrow> handlers_consistent (fold (prepare_workspace P) gs s)
       \<and> set (actor_handlers s) \<subseteq> set (actor_handlers (fold (prepare_workspace P) gs s))
       \<and> set (display_handlers s) \<subseteq> set (display_handlers (fold (prepare_workspace P) gs s))
       \<and> (\<forall>e \<in> set (display_handlers (fold (prepare_workspace P) gs s)). is_restacked (snd e))
       \<and> (\<forall>ws \<in> set gs. \<exists>i. (i, Restacked ws)
              \<in> set (display_handlers (fold (prepare_workspace P) gs s)))
       \<and> (\<forall>e \<in> set (display_handlers (fold (prepare_workspace P) gs s)).
             e \<in> set (display_handlers s)
             \<or> (\<exists>ws \<in> set gs. \<exists>d. (ws, d, WorkspaceDestroy ws (fst e) d)
                   \<in> set (actor_handlers (fold (prepare_workspace P) gs s))))"
proof (induction gs arbitrary: s)
  case Nil
  then show ?case by simp
next
  case (Cons g gs)
  let ?s1 = "prepare_workspace P g s"
  let ?s' = "fold (prepare_workspace P) gs ?s1"
  have dh1: "display_handlers ?s1 = display_handlers s @ [(next_handler_id s, Restacked g)]"
    by (simp add: prepare_workspace_fields)
  have c1: "handlers_consistent ?s1"
    using Cons.prems(1) by (rule prepare_workspace_handlers(1))
  have r1: "\<forall>e \<in> set (display_handlers ?s1). is_restacked (snd e)"
    using Cons.prems(2) by (simp add: dh1 is_restacked_def)
  have IH: "handlers_consistent ?s'"
    "set (actor_handlers ?s1) \<subseteq> set (actor_handlers ?s')"
    "set (display_handlers ?s1) \<subseteq> set (display_handlers ?s')"
    "\<forall>e \<in> set (display_handlers ?s'). is_restacked (snd e)"
    "\<forall>ws \<in> set gs. \<exists>i. (i, Restacked ws) \<in> set (display_handlers ?s')"
    "\<forall>e \<in> set (display_handlers ?s').
             e \<in> set (display_handlers ?s1)
             \<or> (\<exists>ws \<in> set gs. \<exists>d. (ws, d, WorkspaceDestroy ws (fst e) d)
                   \<in> set (actor_handlers ?s'))"
    using Cons.IH [OF c1 r1] by blast+
  have own: "(g, Suc (next_handler_id s),
               WorkspaceDestroy g (next_handler_id s) (Suc (next_handler_id s)))
               \<in> set (actor_handlers ?s')"
    using prepare_workspace_handlers(3) [of g s P] IH(2) by blast
  have a2: "set (actor_handlers s) \<subseteq> set (actor_handlers ?s')"
    using prepare_workspace_handlers(2) [of s P g] IH(2) by blast
  have a3: "set (display_handlers s) \<subseteq> set (display_handlers ?s')"
    using IH(3) by (auto simp: dh1)
  have a5: "\<forall>ws \<in> set (g # gs). \<exists>i. (i, Restacked ws) \<in> set (display_handlers ?s')"
    using IH(5) IH(3) by (auto simp: dh1)
  have a6: "\<forall>e \<in> set (display_handlers ?s').
             e \<in> set (display_handlers s)
             \<or> (\<exists>ws \<in> set (g # gs). \<exists>d. (ws, d, WorkspaceDestroy ws (fst e) d)
                   \<in> set (actor_handlers ?s'))"
  proof
    fix e assume "e \<in> set (display_handlers ?s')"
    with IH(6) consider "e \<in> set (display_handlers ?s1)"
      | "\<exists>ws \<in> set gs. \<exists>d. (ws, d, WorkspaceDestroy ws (fst e) d) \<in> set (actor_handlers ?s')"
      by blast
    then show "e \<in> set (display_handlers s)
             \<or> (\<exists>ws \<in> set (g # gs). \<exists>d. (ws, d, WorkspaceDestroy ws (fst e) d)
                   \<in> set (actor_handlers ?s'))"
    proof cases
      case 1
      then have "e \<in> set (display_handlers s) \<or> e = (next_handler_id s, Restacked g)"
        by (auto simp: dh1)
      then show ?thesis using own by auto
    next
      case 2
      then show ?thesis by auto
    qed
  qed
  show ?case
    using IH(1) a2 a3 IH(4) a5 a6 by simp
qed

section \<open>Lemmas: what the preparation creates\<close>

lemma fold_prepare_record_created:
  "map (clone_source (fold (prepare_record P ws) rs s))
       [next_actor s ..< next_actor (fold (prepare_record P ws) rs s)]
     = map (\<lambda>r. rwc_shadow (windowActor r)) (filter wants_shadow rs)
   \<and> map (geometry_of (fold (prepare_record P ws) rs s))
       [next_actor s ..< next_actor (fold (prepare_record P ws) rs s)]
     = map (\<lambda>r. Some (workspace_switch_box P r)) (filter wants_shadow rs)"
proof (induction rs arbitrary: s)
  case Nil
  show ?case by simp
next
  case (Cons r rs)
  let ?s1 = "prepare_record P ws r s"
  let ?s' = "fold (prepare_record P ws) rs ?s1"
  show ?case
  proof (cases "wants_shadow r")
    case False
    then have "?s1 = s" by (simp add: prepare_record_skip)
    with Cons.IH [of s] False show ?thesis by simp
  next
    case True
    let ?n = "next_actor s"
    have na1: "next_actor ?s1 = Suc ?n"
      using True by (simp add: prepare_record_fields)
    have na': "next_actor ?s' = Suc ?n + length (filter wants_shadow rs)"
      by (simp add: fold_prepare_record_fields na1)
    have lt: "?n < next_actor ?s'"
      by (simp add: na')
    have upt: "[?n ..< next_actor ?s'] = ?n # [next_actor ?s1 ..< next_actor ?s']"
      unfolding na1 using lt by (rule upt_conv_Cons)
    have older: "clone_source ?s' ?n = clone_source ?s1 ?n
                   \<and> geometry_of ?s' ?n = geometry_of ?s1 ?n"
      by (rule fold_prepare_record_older) (simp add: na1)
    have hd: "clone_source ?s' ?n = rwc_shadow (windowActor r)"
      "geometry_of ?s' ?n = Some (workspace_switch_box P r)"
      using older True by (simp_all add: prepare_record_source)
    show ?thesis
      using Cons.IH [of ?s1] True by (simp add: upt hd del: upt_Suc)
  qed
qed

lemma prepare_workspace_older:
  "a < next_actor s \<Longrightarrow>
     clone_source (prepare_workspace P ws s) a = clone_source s a
     \<and> geometry_of (prepare_workspace P ws s) a = geometry_of s a"
  using fold_prepare_record_older [of a
      "s\<lparr>display_handlers := display_handlers s @ [(next_handler_id s, Restacked ws)],
          actor_handlers := actor_handlers s @
             [(ws, Suc (next_handler_id s),
               WorkspaceDestroy ws (next_handler_id s) (Suc (next_handler_id s)))],
          next_handler_id := Suc (Suc (next_handler_id s))\<rparr>" P ws "windowRecords s ws"]
  by (simp add: prepare_workspace_unfold)

lemma fold_prepare_workspace_older:
  "a < next_actor s \<Longrightarrow>
     clone_source (fold (prepare_workspace P) gs s) a = clone_source s a
     \<and> geometry_of (fold (prepare_workspace P) gs s) a = geometry_of s a"
proof (induction gs arbitrary: s)
  case Nil
  then show ?case by simp
next
  case (Cons g gs)
  have "a < next_actor (prepare_workspace P g s)"
    using Cons.prems by (simp add: prepare_workspace_fields)
  from Cons.IH [OF this] prepare_workspace_older [OF Cons.prems, of P g]
  show ?case by simp
qed

lemma prepare_workspace_created:
  "map (clone_source (prepare_workspace P ws s))
       [next_actor s ..< next_actor (prepare_workspace P ws s)]
     = map (\<lambda>r. rwc_shadow (windowActor r)) (filter wants_shadow (windowRecords s ws))
   \<and> map (geometry_of (prepare_workspace P ws s))
       [next_actor s ..< next_actor (prepare_workspace P ws s)]
     = map (\<lambda>r. Some (workspace_switch_box P r)) (filter wants_shadow (windowRecords s ws))"
  using fold_prepare_record_created [of P ws "windowRecords s ws"
      "s\<lparr>display_handlers := display_handlers s @ [(next_handler_id s, Restacked ws)],
          actor_handlers := actor_handlers s @
             [(ws, Suc (next_handler_id s),
               WorkspaceDestroy ws (next_handler_id s) (Suc (next_handler_id s)))],
          next_handler_id := Suc (Suc (next_handler_id s))\<rparr>"]
  by (simp add: prepare_workspace_unfold)

lemma fold_prepare_workspace_created:
  "map (clone_source (fold (prepare_workspace P) gs s))
       [next_actor s ..< next_actor (fold (prepare_workspace P) gs s)]
     = map (\<lambda>r. rwc_shadow (windowActor r))
         (filter wants_shadow (concat (map (windowRecords s) gs)))
   \<and> map (geometry_of (fold (prepare_workspace P) gs s))
       [next_actor s ..< next_actor (fold (prepare_workspace P) gs s)]
     = map (\<lambda>r. Some (workspace_switch_box P r))
         (filter wants_shadow (concat (map (windowRecords s) gs)))"
proof (induction gs arbitrary: s)
  case Nil
  show ?case by simp
next
  case (Cons g gs)
  let ?s1 = "prepare_workspace P g s"
  let ?s' = "fold (prepare_workspace P) gs ?s1"
  let ?n = "next_actor s" and ?n1 = "next_actor ?s1" and ?n' = "next_actor ?s'"
  have wr1: "windowRecords ?s1 = windowRecords s"
    by (simp add: prepare_workspace_fields)
  have le1: "?n \<le> ?n1" by (simp add: prepare_workspace_fields)
  have le2: "?n1 \<le> ?n'" by (simp add: fold_prepare_workspace_fields)
  have upt: "[?n ..< ?n'] = [?n ..< ?n1] @ [?n1 ..< ?n']"
    using le1 le2 by (metis le_Suc_ex upt_add_eq_append)
  have old: "clone_source ?s' a = clone_source ?s1 a \<and> geometry_of ?s' a = geometry_of ?s1 a"
    if "a \<in> set [?n ..< ?n1]" for a
    using that by (intro fold_prepare_workspace_older) simp
  have first: "map (clone_source ?s') [?n ..< ?n1] = map (clone_source ?s1) [?n ..< ?n1]"
    "map (geometry_of ?s') [?n ..< ?n1] = map (geometry_of ?s1) [?n ..< ?n1]"
    using old by (simp_all cong: map_cong)
  show ?case
    using Cons.IH [of ?s1] prepare_workspace_created [of P g s]
    by (simp add: upt first wr1)
qed

lemma group_built_after_other:
  assumes "group_built s ws" and "ws \<noteq> g"
  shows "group_built (prepare_workspace P g s) ws"
proof -
  let ?s1 = "prepare_workspace P g s"
  have ch: "children ?s1 ws = children s ws"
    using assms(2) by (simp add: prepare_workspace_frame)
  have wr: "windowRecords ?s1 ws = windowRecords s ws"
    by (simp add: prepare_workspace_fields)
  have na: "next_actor s \<le> next_actor ?s1"
    by (simp add: prepare_workspace_fields)
  have "\<forall>a \<in> set (children s ws). a < next_actor ?s1"
    using assms(1) na unfolding group_built_def by fastforce
  then show ?thesis
    using assms(1) unfolding group_built_def ch wr by blast
qed

lemma prepare_session_built:
  "distinct gs \<Longrightarrow> distinct (map clone (concat (map (windowRecords s) gs)))
   \<Longrightarrow> \<forall>ws \<in> set gs. group_built s ws
   \<Longrightarrow> \<forall>ws \<in> set gs.
         length (children (fold (prepare_workspace P) gs s) ws)
           = length (children s ws) + length (filter wants_shadow (windowRecords s ws))
         \<and> (\<forall>r \<in> set (windowRecords s ws).
               if wants_shadow r
               then (\<exists>sh. shadow_clone_of (fold (prepare_workspace P) gs s) (clone r) = Some sh
                       \<and> next_actor s \<le> sh
                       \<and> sh < next_actor (fold (prepare_workspace P) gs s)
                       \<and> clone_source (fold (prepare_workspace P) gs s) sh
                           = rwc_shadow (windowActor r)
                       \<and> geometry_of (fold (prepare_workspace P) gs s) sh
                           = Some (workspace_switch_box P r)
                       \<and> immediately_below sh (clone r)
                            (children (fold (prepare_workspace P) gs s) ws))
               else shadow_clone_of (fold (prepare_workspace P) gs s) (clone r)
                      = shadow_clone_of s (clone r))"
proof (induction gs arbitrary: s)
  case Nil
  then show ?case by simp
next
  case (Cons g gs)
  let ?s1 = "prepare_workspace P g s"
  let ?s' = "fold (prepare_workspace P) gs ?s1"
  have wr1: "windowRecords ?s1 = windowRecords s"
    by (simp add: prepare_workspace_fields)
  have le1: "next_actor s \<le> next_actor ?s1" by (simp add: prepare_workspace_fields)
  have le2: "next_actor ?s1 \<le> next_actor ?s'" by (simp add: fold_prepare_workspace_fields)
  have g_notin: "g \<notin> set gs" and dgs: "distinct gs"
    using Cons.prems(1) by simp_all
  have dcl: "distinct (map clone (concat (map (windowRecords s) gs)))"
    and disj: "set (map clone (windowRecords s g))
                 \<inter> set (map clone (concat (map (windowRecords s) gs))) = {}"
    using Cons.prems(2) by simp_all
  have sep: "clone r \<notin> clone ` set (windowRecords s g)"
    if "ws \<in> set gs" "r \<in> set (windowRecords s ws)" for ws r
  proof
    assume "clone r \<in> clone ` set (windowRecords s g)"
    moreover have "clone r \<in> set (map clone (concat (map (windowRecords s) gs)))"
      using that by auto
    ultimately show False using disj by auto
  qed
  have sep2: "clone r \<notin> clone ` (\<Union>ws \<in> set gs. set (windowRecords ?s1 ws))"
    if "r \<in> set (windowRecords s g)" for r
  proof
    assume "clone r \<in> clone ` (\<Union>ws \<in> set gs. set (windowRecords ?s1 ws))"
    then have "clone r \<in> set (map clone (concat (map (windowRecords s) gs)))"
      by (auto simp: wr1)
    moreover have "clone r \<in> set (map clone (windowRecords s g))"
      using that by simp
    ultimately show False using disj by auto
  qed
  have built_g: "group_built s g" using Cons.prems(3) by simp
  have built1: "\<forall>ws \<in> set gs. group_built ?s1 ws"
  proof
    fix ws assume ws: "ws \<in> set gs"
    then have "ws \<noteq> g" using g_notin by auto
    moreover have "group_built s ws" using Cons.prems(3) ws by simp
    ultimately show "group_built ?s1 ws" by (intro group_built_after_other)
  qed
  have IH: "\<forall>ws \<in> set gs.
         length (children ?s' ws)
           = length (children ?s1 ws) + length (filter wants_shadow (windowRecords s ws))
         \<and> (\<forall>r \<in> set (windowRecords s ws).
               if wants_shadow r
               then (\<exists>sh. shadow_clone_of ?s' (clone r) = Some sh
                       \<and> next_actor ?s1 \<le> sh \<and> sh < next_actor ?s'
                       \<and> clone_source ?s' sh = rwc_shadow (windowActor r)
                       \<and> geometry_of ?s' sh = Some (workspace_switch_box P r)
                       \<and> immediately_below sh (clone r) (children ?s' ws))
               else shadow_clone_of ?s' (clone r) = shadow_clone_of ?s1 (clone r))"
    using Cons.IH [of ?s1] dgs dcl built1 by (simp add: wr1)
  have rp: "records_prepared P g (windowRecords s g) s ?s1"
    using built_g by (rule prepare_workspace_records)
  have chg: "children ?s' g = children ?s1 g"
    using g_notin by (simp add: fold_prepare_workspace_children)
  have scg: "shadow_clone_of ?s' (clone r) = shadow_clone_of ?s1 (clone r)"
    if "r \<in> set (windowRecords s g)" for r
    using sep2 [OF that] by (rule fold_prepare_workspace_shadow)
  have head: "length (children ?s' g)
           = length (children s g) + length (filter wants_shadow (windowRecords s g))
         \<and> (\<forall>r \<in> set (windowRecords s g).
               if wants_shadow r
               then (\<exists>sh. shadow_clone_of ?s' (clone r) = Some sh
                       \<and> next_actor s \<le> sh \<and> sh < next_actor ?s'
                       \<and> clone_source ?s' sh = rwc_shadow (windowActor r)
                       \<and> geometry_of ?s' sh = Some (workspace_switch_box P r)
                       \<and> immediately_below sh (clone r) (children ?s' g))
               else shadow_clone_of ?s' (clone r) = shadow_clone_of s (clone r))"
  proof
    show "length (children ?s' g)
           = length (children s g) + length (filter wants_shadow (windowRecords s g))"
      using rp unfolding records_prepared_def chg by blast
    show "\<forall>r \<in> set (windowRecords s g).
               if wants_shadow r
               then (\<exists>sh. shadow_clone_of ?s' (clone r) = Some sh
                       \<and> next_actor s \<le> sh \<and> sh < next_actor ?s'
                       \<and> clone_source ?s' sh = rwc_shadow (windowActor r)
                       \<and> geometry_of ?s' sh = Some (workspace_switch_box P r)
                       \<and> immediately_below sh (clone r) (children ?s' g))
               else shadow_clone_of ?s' (clone r) = shadow_clone_of s (clone r)"
    proof
      fix r assume r: "r \<in> set (windowRecords s g)"
      have w: "if wants_shadow r
           then (\<exists>sh. shadow_clone_of ?s1 (clone r) = Some sh \<and> next_actor s \<le> sh
                   \<and> sh < next_actor ?s1
                   \<and> clone_source ?s1 sh = rwc_shadow (windowActor r)
                   \<and> geometry_of ?s1 sh = Some (workspace_switch_box P r)
                   \<and> immediately_below sh (clone r) (children ?s1 g))
           else shadow_clone_of ?s1 (clone r) = shadow_clone_of s (clone r)"
        using rp r unfolding records_prepared_def by blast
      show "if wants_shadow r
               then (\<exists>sh. shadow_clone_of ?s' (clone r) = Some sh
                       \<and> next_actor s \<le> sh \<and> sh < next_actor ?s'
                       \<and> clone_source ?s' sh = rwc_shadow (windowActor r)
                       \<and> geometry_of ?s' sh = Some (workspace_switch_box P r)
                       \<and> immediately_below sh (clone r) (children ?s' g))
               else shadow_clone_of ?s' (clone r) = shadow_clone_of s (clone r)"
      proof (cases "wants_shadow r")
        case False
        with w show ?thesis by (simp add: scg [OF r])
      next
        case True
        with w obtain sh where sh: "shadow_clone_of ?s1 (clone r) = Some sh"
          "next_actor s \<le> sh" "sh < next_actor ?s1"
          "clone_source ?s1 sh = rwc_shadow (windowActor r)"
          "geometry_of ?s1 sh = Some (workspace_switch_box P r)"
          "immediately_below sh (clone r) (children ?s1 g)"
          by auto
        have older: "clone_source ?s' sh = clone_source ?s1 sh
                       \<and> geometry_of ?s' sh = geometry_of ?s1 sh"
          using sh(3) by (rule fold_prepare_workspace_older)
        have "shadow_clone_of ?s' (clone r) = Some sh \<and> next_actor s \<le> sh
                \<and> sh < next_actor ?s'
                \<and> clone_source ?s' sh = rwc_shadow (windowActor r)
                \<and> geometry_of ?s' sh = Some (workspace_switch_box P r)
                \<and> immediately_below sh (clone r) (children ?s' g)"
          using sh older le2 by (simp add: scg [OF r] chg)
        then show ?thesis using True by auto
      qed
    qed
  qed
  have tail: "length (children ?s' ws)
           = length (children s ws) + length (filter wants_shadow (windowRecords s ws))
         \<and> (\<forall>r \<in> set (windowRecords s ws).
               if wants_shadow r
               then (\<exists>sh. shadow_clone_of ?s' (clone r) = Some sh
                       \<and> next_actor s \<le> sh \<and> sh < next_actor ?s'
                       \<and> clone_source ?s' sh = rwc_shadow (windowActor r)
                       \<and> geometry_of ?s' sh = Some (workspace_switch_box P r)
                       \<and> immediately_below sh (clone r) (children ?s' ws))
               else shadow_clone_of ?s' (clone r) = shadow_clone_of s (clone r))"
    if ws: "ws \<in> set gs" for ws
  proof
    have ne: "ws \<noteq> g" using ws g_notin by auto
    have ch1: "children ?s1 ws = children s ws"
      using ne by (simp add: prepare_workspace_frame)
    show "length (children ?s' ws)
           = length (children s ws) + length (filter wants_shadow (windowRecords s ws))"
      using IH ws by (simp add: ch1)
    show "\<forall>r \<in> set (windowRecords s ws).
               if wants_shadow r
               then (\<exists>sh. shadow_clone_of ?s' (clone r) = Some sh
                       \<and> next_actor s \<le> sh \<and> sh < next_actor ?s'
                       \<and> clone_source ?s' sh = rwc_shadow (windowActor r)
                       \<and> geometry_of ?s' sh = Some (workspace_switch_box P r)
                       \<and> immediately_below sh (clone r) (children ?s' ws))
               else shadow_clone_of ?s' (clone r) = shadow_clone_of s (clone r)"
    proof
      fix r assume r: "r \<in> set (windowRecords s ws)"
      have s1: "shadow_clone_of ?s1 (clone r) = shadow_clone_of s (clone r)"
        using sep [OF ws r] by (simp add: prepare_workspace_frame)
      have w: "if wants_shadow r
               then (\<exists>sh. shadow_clone_of ?s' (clone r) = Some sh
                       \<and> next_actor ?s1 \<le> sh \<and> sh < next_actor ?s'
                       \<and> clone_source ?s' sh = rwc_shadow (windowActor r)
                       \<and> geometry_of ?s' sh = Some (workspace_switch_box P r)
                       \<and> immediately_below sh (clone r) (children ?s' ws))
               else shadow_clone_of ?s' (clone r) = shadow_clone_of ?s1 (clone r)"
        using IH ws r by blast
      show "if wants_shadow r
               then (\<exists>sh. shadow_clone_of ?s' (clone r) = Some sh
                       \<and> next_actor s \<le> sh \<and> sh < next_actor ?s'
                       \<and> clone_source ?s' sh = rwc_shadow (windowActor r)
                       \<and> geometry_of ?s' sh = Some (workspace_switch_box P r)
                       \<and> immediately_below sh (clone r) (children ?s' ws))
               else shadow_clone_of ?s' (clone r) = shadow_clone_of s (clone r)"
      proof (cases "wants_shadow r")
        case False
        with w show ?thesis by (simp add: s1)
      next
        case True
        with w obtain sh where sh: "shadow_clone_of ?s' (clone r) = Some sh"
          "next_actor ?s1 \<le> sh" "sh < next_actor ?s'"
          "clone_source ?s' sh = rwc_shadow (windowActor r)"
          "geometry_of ?s' sh = Some (workspace_switch_box P r)"
          "immediately_below sh (clone r) (children ?s' ws)"
          by auto
        have "next_actor s \<le> sh" using sh(2) le1 by simp
        with sh True show ?thesis by auto
      qed
    qed
  qed
  show ?case
    using head tail by simp
qed

lemma example_prepared_once_fields:
  "windowRecords example_prepared_once = example_records"
  "next_actor example_prepared_once = 102"
  "children example_prepared_once 1 = [100, 10, 11, 101, 12]"
  "map (shadow_clone_of example_prepared_once) [10, 11, 12] = [Some 100, None, Some 101]"
  "map (clone_source example_prepared_once) [100, 101] = [Some 51, Some 71]"
  "destroyed example_prepared_once = []"
  "faults example_prepared_once = []"
  "display_handlers example_prepared_once = [(1, Restacked 1)]"
  "next_handler_id example_prepared_once = 7"
  "actor_handlers example_prepared_once =
     [(1, 2, WorkspaceDestroy 1 1 2), (10, 3, NotifyTranslationZ 10 100),
      (10, 4, CloneDestroy 10 3 4), (12, 5, NotifyTranslationZ 12 101),
      (12, 6, CloneDestroy 12 5 6)]"
  unfolding example_prepared_once_def
  by (simp_all add: prepareWorkspaceSwitch_def prepare_workspace_unfold prepare_record_fields
        prepare_record_source prepare_record_handlers example_state_def example_records_def
        example_window_def wants_shadow_def)

lemma example_prepared_twice_fields:
  "windowRecords example_prepared_twice = example_records"
  "next_actor example_prepared_twice = 104"
  "children example_prepared_twice 1 = [100, 102, 10, 11, 101, 103, 12]"
  "map (shadow_clone_of example_prepared_twice) [10, 11, 12] = [Some 102, None, Some 103]"
  "map (clone_source example_prepared_twice) [100, 101, 102, 103]
     = [Some 51, Some 71, Some 51, Some 71]"
  "destroyed example_prepared_twice = []"
  "faults example_prepared_twice = []"
  "display_handlers example_prepared_twice = [(1, Restacked 1), (7, Restacked 1)]"
  "actor_handlers example_prepared_twice =
     [(1, 2, WorkspaceDestroy 1 1 2), (10, 3, NotifyTranslationZ 10 100),
      (10, 4, CloneDestroy 10 3 4), (12, 5, NotifyTranslationZ 12 101),
      (12, 6, CloneDestroy 12 5 6), (1, 8, WorkspaceDestroy 1 7 8),
      (10, 9, NotifyTranslationZ 10 102), (10, 10, CloneDestroy 10 9 10),
      (12, 11, NotifyTranslationZ 12 103), (12, 12, CloneDestroy 12 11 12)]"
  unfolding example_prepared_twice_def
  using example_prepared_once_fields(4) example_prepared_once_fields(5)
  by (simp_all add: prepareWorkspaceSwitch_def prepare_workspace_unfold prepare_record_fields
        prepare_record_source prepare_record_handlers example_prepared_once_fields(1)
        example_prepared_once_fields(2) example_prepared_once_fields(3) [simplified]
        example_prepared_once_fields(6) example_prepared_once_fields(7)
        example_prepared_once_fields(8) example_prepared_once_fields(9)
        example_prepared_once_fields(10)
        example_records_def example_window_def wants_shadow_def)

section \<open>Lemmas: what finishing destroys\<close>

lemma fold_restack_record_more:
  "destroyed (fold (restack_record ws) rs s) = destroyed s"
  "next_actor (fold (restack_record ws) rs s) = next_actor s"
  "faults (fold (restack_record ws) rs s) = faults s"
  by (induction rs arbitrary: s) (simp_all add: restack_record_def split: option.splits)

lemma fold_run_restacked_more:
  "\<forall>e \<in> set hs. is_restacked (snd e) \<Longrightarrow>
     actor_handlers (fold (\<lambda>(i, h). run_handler h) hs s) = actor_handlers s
     \<and> destroyed (fold (\<lambda>(i, h). run_handler h) hs s) = destroyed s
     \<and> next_actor (fold (\<lambda>(i, h). run_handler h) hs s) = next_actor s
     \<and> faults (fold (\<lambda>(i, h). run_handler h) hs s) = faults s"
proof (induction hs arbitrary: s)
  case Nil
  then show ?case by simp
next
  case (Cons e hs)
  obtain i w where e: "e = (i, Restacked w)"
    using Cons.prems by (cases e) (auto simp: is_restacked_iff)
  have rest: "\<forall>e \<in> set hs. is_restacked (snd e)" using Cons.prems by simp
  show ?case
    using Cons.IH [OF rest, of "run_handler (Restacked w) s"]
    by (simp add: e fold_restack_record_more fold_restack_record_handlers)
qed

lemma restack_event_same:
  assumes "restack_event s s'" "\<forall>e \<in> set (display_handlers s). is_restacked (snd e)"
  shows "same_session s s'"
  using assms(1)
proof (cases rule: restack_event.cases)
  case (restack order)
  let ?s0 = "s\<lparr>children := order\<rparr>"
  have hs: "\<forall>e \<in> set (display_handlers ?s0). is_restacked (snd e)"
    using assms(2) by simp
  have es: "s' = fold (\<lambda>(i, h). run_handler h) (display_handlers s) ?s0"
    using emit_restacked_fold [OF hs] by (simp add: restack(1))
  show ?thesis
    unfolding same_session_def es
    using fold_run_restacked_all [OF assms(2), of ?s0] fold_run_restacked_more [OF assms(2), of ?s0]
    by simp
qed

lemma restack_events_same:
  assumes "restack_event\<^sup>*\<^sup>* s s'" "\<forall>e \<in> set (display_handlers s). is_restacked (snd e)"
  shows "same_session s s'"
  using assms
proof (induction rule: rtranclp_induct)
  case base
  then show ?case by (simp add: same_session_def)
next
  case (step y z)
  then have ss: "same_session s y" by simp
  then have "\<forall>e \<in> set (display_handlers y). is_restacked (snd e)"
    using step.prems by (simp add: same_session_def)
  with step.hyps(2) have "same_session y z" by (rule restack_event_same)
  with ss show ?case by (simp add: same_session_def)
qed

lemma actor_destroy_facts:
  "a \<in> set (destroyed (actor_destroy a s))"
  "set (destroyed s) \<subseteq> set (destroyed (actor_destroy a s))"
  "set (children (actor_destroy a s) p) \<subseteq> set (children s p)"
  "a \<notin> set (destroyed s) \<Longrightarrow> a \<notin> set (children (actor_destroy a s) p)"
  "b \<in> set (destroyed (actor_destroy a s)) \<Longrightarrow> b = a \<or> b \<in> set (destroyed s)"
  by (auto simp: actor_destroy_def split: if_splits)

lemma finish_record_destroyed:
  "set (destroyed s) \<subseteq> set (destroyed (finish_record r s))"
  "shadow_clone_of s (clone r) = Some a \<Longrightarrow> a \<in> set (destroyed (finish_record r s))"
  using actor_destroy_facts(2)
  by (auto simp: finish_record_def Let_def actor_destroy_facts(1) split: option.splits)

lemma finish_record_gone: "gone a s \<Longrightarrow> gone a (finish_record r s)"
proof (cases "shadow_clone_of s (clone r)")
  case None
  then show "gone a s \<Longrightarrow> gone a (finish_record r s)" by (simp add: finish_record_none)
next
  case (Some b)
  assume g: "gone a s"
  have ch: "children (finish_record r s) = children (actor_destroy b s)"
    and de: "destroyed (finish_record r s) = destroyed (actor_destroy b s)"
    using Some by (simp_all add: finish_record_def Let_def)
  show "gone a (finish_record r s)"
    unfolding gone_def ch de
  proof (intro impI allI)
    fix p assume a: "a \<in> set (destroyed (actor_destroy b s))"
    show "a \<notin> set (children (actor_destroy b s) p)"
    proof (cases "a \<in> set (destroyed s)")
      case True
      with g have "a \<notin> set (children s p)" by (simp add: gone_def)
      then show ?thesis using actor_destroy_facts(3) [of b s p] by auto
    next
      case False
      with a have "a = b" using actor_destroy_facts(5) by blast
      with False show ?thesis by (simp add: actor_destroy_facts(4))
    qed
  qed
qed

lemma fold_finish_record_destroys:
  "set (destroyed s) \<subseteq> set (destroyed (fold finish_record rs s))"
  "gone a s \<Longrightarrow> gone a (fold finish_record rs s)"
  "shadow_clone_of s c = Some a \<Longrightarrow> c \<in> clone ` set rs
     \<Longrightarrow> a \<in> set (destroyed (fold finish_record rs s))"
proof (induction rs arbitrary: s)
  case Nil
  { case 1 show ?case by simp
  next case 2 then show ?case by simp
  next case 3 then show ?case by simp }
next
  case (Cons r rs)
  { case 1 show ?case
      using Cons.IH(1) [of "finish_record r s"] finish_record_destroyed(1) [of s r] by auto
  next case 2 then show ?case
      using Cons.IH(2) [of "finish_record r s"] by (simp add: finish_record_gone)
  next case 3
    show ?case
    proof (cases "clone r = c")
      case True
      with 3 have "a \<in> set (destroyed (finish_record r s))"
        by (simp add: finish_record_destroyed(2))
      then show ?thesis using Cons.IH(1) [of "finish_record r s"] by auto
    next
      case False
      with 3 have "shadow_clone_of (finish_record r s) c = Some a" "c \<in> clone ` set rs"
        by (auto simp: finish_record_fields)
      then show ?thesis using Cons.IH(3) [of "finish_record r s"] by simp
    qed }
qed

lemma finish_workspace_destroys:
  "set (destroyed s) \<subseteq> set (destroyed (finish_workspace g s))"
  "gone a s \<Longrightarrow> gone a (finish_workspace g s)"
  "shadow_clone_of s c = Some a \<Longrightarrow> c \<in> clone ` set (windowRecords s g)
     \<Longrightarrow> a \<in> set (destroyed (finish_workspace g s))"
  unfolding finish_workspace_def
  by (rule fold_finish_record_destroys(1), rule fold_finish_record_destroys(2), assumption,
      rule fold_finish_record_destroys(3), assumption+)

lemma fold_finish_workspace_destroyed_mono:
  "set (destroyed s) \<subseteq> set (destroyed (fold finish_workspace gs s))"
proof (induction gs arbitrary: s)
  case Nil
  show ?case by simp
next
  case (Cons g gs)
  have "set (destroyed s) \<subseteq> set (destroyed (finish_workspace g s))"
    by (rule finish_workspace_destroys(1))
  also have "\<dots> \<subseteq> set (destroyed (fold finish_workspace gs (finish_workspace g s)))"
    by (rule Cons.IH)
  finally show ?case by simp
qed

lemma fold_finish_workspace_gone:
  "gone a s \<Longrightarrow> gone a (fold finish_workspace gs s)"
  by (induction gs arbitrary: s) (simp_all add: finish_workspace_destroys(2))

lemma fold_finish_workspace_destroys:
  "shadow_clone_of s c = Some a \<Longrightarrow> c \<in> clone ` (\<Union>ws \<in> set gs. set (windowRecords s ws))
     \<Longrightarrow> a \<in> set (destroyed (fold finish_workspace gs s))"
proof (induction gs arbitrary: s)
  case Nil
  then show ?case by simp
next
  case (Cons g gs)
  let ?s1 = "finish_workspace g s"
  show ?case
  proof (cases "c \<in> clone ` set (windowRecords s g)")
    case True
    with Cons.prems have "a \<in> set (destroyed ?s1)"
      by (simp add: finish_workspace_destroys(3))
    then have "a \<in> set (destroyed (fold finish_workspace gs ?s1))"
      using fold_finish_workspace_destroyed_mono [of ?s1 gs] by blast
    then show ?thesis by simp
  next
    case False
    have "shadow_clone_of ?s1 c = Some a"
      using Cons.prems(1) False by (simp add: finish_workspace_fields)
    moreover have "c \<in> clone ` (\<Union>ws \<in> set gs. set (windowRecords ?s1 ws))"
      using Cons.prems(2) False by (auto simp: finish_workspace_fields)
    ultimately have "a \<in> set (destroyed (fold finish_workspace gs ?s1))"
      by (rule Cons.IH)
    then show ?thesis by simp
  qed
qed

section \<open>Lemmas: the teardown\<close>

lemma actor_disconnect_display: "display_handlers (actor_disconnect a i s) = display_handlers s"
  by (simp add: actor_disconnect_def)

lemma run_handler_display_mono:
  "set (display_handlers (run_handler h s)) \<subseteq> set (display_handlers s)"
proof (cases h)
  case (Restacked w)
  then show ?thesis by (simp add: fold_restack_record_handlers)
next
  case (WorkspaceDestroy w r d)
  then show ?thesis
    using display_disconnect_handlers(2) [of r s] by (simp add: actor_disconnect_display)
next
  case (NotifyTranslationZ c sh)
  then show ?thesis by simp
next
  case (CloneDestroy c n d)
  then show ?thesis by (simp add: actor_disconnect_display)
qed

lemma fold_run_display_mono:
  "set (display_handlers (fold run_actor_handler es s)) \<subseteq> set (display_handlers s)"
proof (induction es arbitrary: s)
  case Nil
  show ?case by simp
next
  case (Cons e es)
  have "set (display_handlers (fold run_actor_handler es (run_actor_handler e s)))
          \<subseteq> set (display_handlers (run_actor_handler e s))"
    by (rule Cons.IH)
  also have "\<dots> \<subseteq> set (display_handlers s)"
    using run_handler_display_mono [of "snd (snd e)" s] by (simp add: run_actor_handler_def)
  finally show ?case by simp
qed

lemma emit_destroy_display_mono:
  "set (display_handlers (emit_destroy a s)) \<subseteq> set (display_handlers s)"
  unfolding emit_destroy_def by (rule fold_run_display_mono)

lemma emit_destroy_handlers_mono:
  "set (actor_handlers (emit_destroy a s)) \<subseteq> set (actor_handlers s)"
  unfolding emit_destroy_def by (rule fold_run_mono)

lemma emit_destroy_consistent:
  "handlers_consistent s \<Longrightarrow> handlers_consistent (emit_destroy a s)"
  using emit_destroy_handlers_mono [of a s] by (auto simp: handlers_consistent_def)

lemma fold_emit_destroy_display_mono:
  "set (display_handlers (fold emit_destroy gs s)) \<subseteq> set (display_handlers s)"
proof (induction gs arbitrary: s)
  case Nil
  show ?case by simp
next
  case (Cons g gs)
  have "set (display_handlers (fold emit_destroy gs (emit_destroy g s)))
          \<subseteq> set (display_handlers (emit_destroy g s))"
    by (rule Cons.IH)
  also have "\<dots> \<subseteq> set (display_handlers s)"
    by (rule emit_destroy_display_mono)
  finally show ?case by simp
qed

lemma default_teardown_groups: "default_teardown monitors s = fold emit_destroy (concat monitors) s"
  by (simp add: default_teardown_def fold_fold_concat)

lemma default_teardown_only_disconnects:
  "set (display_handlers (default_teardown monitors s)) \<subseteq> set (display_handlers s)"
  unfolding default_teardown_groups by (rule fold_emit_destroy_display_mono)

section \<open>Lemmas: a prepared session\<close>

lemma prepared_session:
  assumes "session_ready s0 monitors"
  shows "session_ok (prepareWorkspaceSwitch P monitors s0) (concat monitors)"
    and "\<forall>ws \<in> set (concat monitors). shadows_stacked (prepareWorkspaceSwitch P monitors s0) ws"
    and "\<forall>a. next_actor s0 \<le> a \<and> a < next_actor (prepareWorkspaceSwitch P monitors s0)
           \<longrightarrow> (\<exists>ws \<in> set (concat monitors). \<exists>r \<in> set (windowRecords s0 ws).
                  shadow_clone_of (prepareWorkspaceSwitch P monitors s0) (clone r) = Some a)"
    and "handlers_consistent (prepareWorkspaceSwitch P monitors s0)"
    and "\<forall>e \<in> set (display_handlers (prepareWorkspaceSwitch P monitors s0)).
             e \<in> set (display_handlers s0)
             \<or> (\<exists>ws \<in> set (concat monitors). \<exists>d. (ws, d, WorkspaceDestroy ws (fst e) d)
                   \<in> set (actor_handlers (prepareWorkspaceSwitch P monitors s0)))"
proof -
  let ?gs = "concat monitors"
  let ?s1 = "fold (prepare_workspace P) ?gs s0"
  have r: "distinct ?gs" "distinct (map clone (concat (map (windowRecords s0) ?gs)))"
    "\<forall>ws \<in> set ?gs. group_ready s0 ws"
    "\<forall>e \<in> set (display_handlers s0). is_restacked (snd e)" "handlers_consistent s0"
    using assms unfolding session_ready_def by blast+
  note g = prepare_session_groups [OF r(1) r(2) r(3), of P]
  note h = prepare_session_handlers [OF r(5) r(4), of P ?gs]
  show "session_ok (prepareWorkspaceSwitch P monitors s0) ?gs"
    unfolding prepareWorkspaceSwitch_groups session_ok_def using g h by blast
  show "\<forall>ws \<in> set ?gs. shadows_stacked (prepareWorkspaceSwitch P monitors s0) ws"
    unfolding prepareWorkspaceSwitch_groups using g by blast
  show "\<forall>a. next_actor s0 \<le> a \<and> a < next_actor (prepareWorkspaceSwitch P monitors s0)
           \<longrightarrow> (\<exists>ws \<in> set ?gs. \<exists>r \<in> set (windowRecords s0 ws).
                  shadow_clone_of (prepareWorkspaceSwitch P monitors s0) (clone r) = Some a)"
    unfolding prepareWorkspaceSwitch_groups using g by blast
  show "handlers_consistent (prepareWorkspaceSwitch P monitors s0)"
    unfolding prepareWorkspaceSwitch_groups using h by blast
  show "\<forall>e \<in> set (display_handlers (prepareWorkspaceSwitch P monitors s0)).
             e \<in> set (display_handlers s0)
             \<or> (\<exists>ws \<in> set ?gs. \<exists>d. (ws, d, WorkspaceDestroy ws (fst e) d)
                   \<in> set (actor_handlers (prepareWorkspaceSwitch P monitors s0)))"
    unfolding prepareWorkspaceSwitch_groups using h by blast
qed

section \<open>Lemmas: the overview\<close>

lemma addWindow_guarded:
  "stack = None \<or> (\<exists>st. stack = Some st
       \<and> (indexOf st ''_updateAttachedDialogs'' \<noteq> - 1 \<or> indexOf st ''addDialog'' \<noteq> - 1))
     \<or> rounded_shadow window = None \<or> \<not> ShouldHasRoundedCorners window
   \<Longrightarrow> addWindow this window stack s = orig_add_window this window s"
  by (auto simp: addWindow_def Let_def split: option.splits)

lemma orig_add_window_fields:
  "ov_shadow_target (orig_add_window this w s) = ov_shadow_target s"
  "ov_connections (orig_add_window this w s) = ov_connections s"
  "ov_rounding_effect (orig_add_window this w s) = ov_rounding_effect s"
  "ov_destroyed (orig_add_window this w s) = ov_destroyed s"
  "ov_effects (orig_add_window this w s) = ov_effects s"
  "p \<noteq> window_container this \<Longrightarrow> ov_children (orig_add_window this w s) p = ov_children s p"
  "ov_next_actor s \<le> ov_next_actor (orig_add_window this w s)"
  "a < ov_next_actor s \<Longrightarrow> ov_clone_source (orig_add_window this w s) a = ov_clone_source s a"
  by (auto simp: orig_add_window_def add_window_def)





lemma addWindow_part0_creates:
  assumes new: "window_id window \<notin> fst ` set (ov_layout s (window_container this))"
    and st: "stack = Some st"
    and sh: "rounded_shadow window = Some sh" "ShouldHasRoundedCorners window"
    and cl_def: "cl = ov_next_actor s"
    and sc_def: "sc = Suc (ov_next_actor s)"
    and eff_def: "eff = (case ov_rounding_effect s (compositor_private window) of
                     None \<Rightarrow> None | Some b \<Rightarrow> Some (compositor_private window))"
  shows "ov_children (addWindow_part0 this window stack s) =
           (ov_children s)(window_container this :=
              insert_child_below sc cl (ov_children s (window_container this) @ [cl]))"
    and "ov_shadow_target (addWindow_part0 this window stack s) =
           (ov_shadow_target s)(sc := Some cl)"
    and "ov_clone_source (addWindow_part0 this window stack s) =
           (ov_clone_source s)(cl := Some (compositor_private window), sc := Some sh)"
    and "ov_connections (addWindow_part0 this window stack s) =
           ov_connections s @ [(cl, CloneNotifyWidth cl), (cl, CloneDestroyed cl eff)]"
    and "ov_effects (addWindow_part0 this window stack s) =
           (ov_effects s)(cl := ov_effects s cl @ [LinearFilterEffect, RoundedCornersEffect])"
    and "ov_rounding_effect (addWindow_part0 this window stack s) =
           (case eff of None \<Rightarrow> ov_rounding_effect s
            | Some a \<Rightarrow> (ov_rounding_effect s)(a := Some False))"
    and "ov_destroyed (addWindow_part0 this window stack s) = ov_destroyed s"
  using new st sh
  by (simp_all add: addWindow_part0_def add_window_def Let_def cl_def sc_def eff_def
        new_OverviewShadowActor_def ov_connect_def add_effect_def set_enabled_def
        split: option.splits)







section \<open>Geometry: the two boxes\<close>

lemmas box_defs = set_origin_def set_size_def get_width_def get_height_def

lemma vfunc_allocate_finite:
  assumes "(if leaving_overview then container_allocation else preview_allocation)
        = \<lparr>box_x1 = Finite xa, box_y1 = Finite ya, box_x2 = Finite xb, box_y2 = Finite yb\<rparr>"
    and "rect_width (frame_rect w) \<noteq> 0"
  shows "vfunc_allocate SHADOW_PADDING leaving_overview container_allocation
           preview_allocation (Some w) box
         = Some \<lparr>box_x1 = Finite (- (SHADOW_PADDING * ((xb - xa) / rect_width (frame_rect w))
                                      * WindowScaleFactor w)),
                 box_y1 = Finite (- (SHADOW_PADDING * ((xb - xa) / rect_width (frame_rect w))
                                      * WindowScaleFactor w)),
                 box_x2 = Finite (- (SHADOW_PADDING * ((xb - xa) / rect_width (frame_rect w))
                                      * WindowScaleFactor w)
                                  + ((xb - xa)
                                     + 2 * (SHADOW_PADDING
                                            * ((xb - xa) / rect_width (frame_rect w))
                                            * WindowScaleFactor w))),
                 box_y2 = Finite (- (SHADOW_PADDING * ((xb - xa) / rect_width (frame_rect w))
                                      * WindowScaleFactor w)
                                  + ((yb - ya)
                                     + 2 * (SHADOW_PADDING
                                            * ((xb - xa) / rect_width (frame_rect w))
                                            * WindowScaleFactor w)))\<rparr>"
proof -
  let ?cb = "if leaving_overview then container_allocation else preview_allocation"
  have w: "get_width ?cb = Finite (xb - xa)" and h: "get_height ?cb = Finite (yb - ya)"
    unfolding assms(1) by (simp_all add: get_width_def get_height_def minus_number_def)
  show ?thesis
    unfolding vfunc_allocate_def Let_def w h
    using assms(2)
    by (simp add: overview_paddings_def set_origin_def set_size_def)
qed

lemma vfunc_allocate_part0_finite:
  assumes "\<not> is_attached_dialog w" and "rect_width (frame_rect w) \<noteq> 0"
    and "rect_height (frame_rect w) \<noteq> 0"
  shows "\<exists>b. vfunc_allocate_part0 SHADOW_PADDING
               \<lparr>target_x = Finite tx, target_y = Finite ty, target_meta_window = Some w,
                target_parent = Some (Finite cw, Finite ch)\<rparr> box = Some b
             \<and> box_x1 b =
                 Finite (tx + (rect_width (buffer_rect w) - rect_width (frame_rect w)) / 2
                              * min (cw / rect_width (frame_rect w))
                                    (ch / rect_height (frame_rect w))
                         - SHADOW_PADDING
                           * min (cw / rect_width (frame_rect w))
                                 (ch / rect_height (frame_rect w))
                           * WindowScaleFactor w)
             \<and> box_y1 b =
                 Finite (ty + (rect_height (buffer_rect w) - rect_height (frame_rect w)) / 2
                              * min (cw / rect_width (frame_rect w))
                                    (ch / rect_height (frame_rect w))
                         - SHADOW_PADDING
                           * min (cw / rect_width (frame_rect w))
                                 (ch / rect_height (frame_rect w))
                           * WindowScaleFactor w)"
  using assms
  by (simp add: vfunc_allocate_part0_def overview_paddings_def Let_def set_origin_def
        set_size_def minus_number_def)

text \<open>
  C3. The geometry given to a shadow clone in a workspace switch: with
  \<open>p = SHADOW_PADDING * scale factor\<close>, the origin is
  \<open>(clone.x + frame.x - actor.x - p, clone.y + frame.y - actor.y - p)\<close> and the size
  \<open>(frame.width + 2p, frame.height + 2p)\<close>, for every record. For a clone at (100,50), an
  actor at (90,40), the frame (90,40,1024,768) and scale factor 1 this is the origin
  \<open>(100 - p, 50 - p)\<close> and the size \<open>(1024 + 2p, 768 + 2p)\<close>. It is the geometry the
  loop body stores for the clone it creates for a window with a shadow and an enabled
  effect.
\<close>

theorem workspace_switch_box_formula:
  "(let frame = frame_rect (metaWindow (windowActor r));
        p = SHADOW_PADDING * WindowScaleFactor (metaWindow (windowActor r))
    in workspace_switch_box SHADOW_PADDING r =
         \<lparr>geo_width = rect_width frame + 2 * p,
          geo_height = rect_height frame + 2 * p,
          geo_x = clone_x r + rect_x frame - actor_x (windowActor r) - p,
          geo_y = clone_y r + rect_y frame - actor_y (windowActor r) - p\<rparr>)
   \<and> workspace_switch_box SHADOW_PADDING
       \<lparr>windowActor = \<lparr>actor_x = 90, actor_y = 40,
          metaWindow = \<lparr>frame_rect =
               \<lparr>rect_x = 90, rect_y = 40, rect_width = 1024, rect_height = 768\<rparr>,
             buffer_rect = buf, is_attached_dialog = dialog, WindowScaleFactor = 1\<rparr>,
          rwc_shadow = sh, effect_enabled = en\<rparr>,
        clone = c, clone_x = 100, clone_y = 50\<rparr>
     = \<lparr>geo_width = 1024 + 2 * SHADOW_PADDING, geo_height = 768 + 2 * SHADOW_PADDING,
        geo_x = 100 - SHADOW_PADDING, geo_y = 50 - SHADOW_PADDING\<rparr>
   \<and> geometry_of
        (prepare_record SHADOW_PADDING workspace
           (r\<lparr>windowActor :=
                (windowActor r)\<lparr>rwc_shadow := Some sh', effect_enabled := Some True\<rparr>\<rparr>) s)
        (next_actor s)
      = Some (workspace_switch_box SHADOW_PADDING r)"
  by (simp add: workspace_switch_box_def workspace_paddings_def Let_def prepare_record_def
        actor_connect_def)


text \<open>
  C2, as stated, fails on \<^verbatim>\<open>part_000\<close>: for a window with frame and buffer (0,0,800,600),
  scale factor 1 and \<open>SHADOW_PADDING = 80\<close>, whose clone sits at (0,0) in a container of
  500 by 300, the code takes the scale \<open>min (500/800) (300/600) = 0.5\<close> and allocates the
  box with origin (-40,-40) and size 480 by 380, where the claim's formula gives the scale
  0.625, the origin (-50,-50) and the size 600 by 400.
\<close>

theorem overview_box_part0_counterexample:
  "vfunc_allocate_part0 80
     \<lparr>target_x = Finite 0, target_y = Finite 0,
      target_meta_window = Some
        \<lparr>frame_rect = \<lparr>rect_x = 0, rect_y = 0, rect_width = 800, rect_height = 600\<rparr>,
         buffer_rect = \<lparr>rect_x = 0, rect_y = 0, rect_width = 800, rect_height = 600\<rparr>,
         is_attached_dialog = False, WindowScaleFactor = 1\<rparr>,
      target_parent = Some (Finite 500, Finite 300)\<rparr>
     \<lparr>box_x1 = Finite 0, box_y1 = Finite 0, box_x2 = Finite 0, box_y2 = Finite 0\<rparr>
   = Some \<lparr>box_x1 = Finite (- 40), box_y1 = Finite (- 40),
           box_x2 = Finite 440, box_y2 = Finite 340\<rparr>
   \<and> overview_box_spec 80 500 300 800 1
       = \<lparr>box_x1 = Finite (- 50), box_y1 = Finite (- 50),
          box_x2 = Finite 550, box_y2 = Finite 350\<rparr>
   \<and> vfunc_allocate_part0 80
     \<lparr>target_x = Finite 0, target_y = Finite 0,
      target_meta_window = Some
        \<lparr>frame_rect = \<lparr>rect_x = 0, rect_y = 0, rect_width = 800, rect_height = 600\<rparr>,
         buffer_rect = \<lparr>rect_x = 0, rect_y = 0, rect_width = 800, rect_height = 600\<rparr>,
         is_attached_dialog = False, WindowScaleFactor = 1\<rparr>,
      target_parent = Some (Finite 500, Finite 300)\<rparr>
     \<lparr>box_x1 = Finite 0, box_y1 = Finite 0, box_x2 = Finite 0, box_y2 = Finite 0\<rparr>
   \<noteq> Some (overview_box_spec 80 500 300 800 1)"
  by (simp add: vfunc_allocate_part0_def overview_box_spec_def overview_paddings_def Let_def
        box_defs minus_number_def)

text \<open>
  C2, amended. In \<^verbatim>\<open>src/src/extension.ts\<close>, for every window whose frame has a width other
  than 0, with the container box \<open>cb\<close> (the preview's allocation box, or the window container's
  while the overview is being left) of finite corners,
  \<open>container_scale = width cb / frame width\<close> and
  \<open>p = SHADOW_PADDING * container_scale * scale factor\<close>, the box has the origin \<open>(-p, -p)\<close>
  and the size of \<open>cb\<close> plus \<open>2p\<close>.
  In \<^verbatim>\<open>part_000\<close>, for every window that is not an attached dialog and whose frame has a
  width and a height other than 0, the scale is the smaller of container width / frame
  width and container height / frame height, \<open>p = SHADOW_PADDING * scale * scale factor\<close>,
  \<open>x\<close> and \<open>y\<close> are the clone's position plus half the scaled difference of buffer and frame
  size, and the origin of the box is \<open>(x - p, y - p)\<close>.
  For the frame (0,0,800,600), the buffer (-10,-10,820,620) and a container of 400 by 300
  both take the scale 0.5 and the origin \<open>(-p, -p)\<close>, \<^verbatim>\<open>part_000\<close> when the clone sits at
  (-5,-5), and \<^verbatim>\<open>src/src/extension.ts\<close> gives the size \<open>(400 + 2p, 300 + 2p)\<close>.
\<close>

theorem overview_box_formulas:
  "((if leaving_overview then container_allocation else preview_allocation)
        = \<lparr>box_x1 = Finite xa, box_y1 = Finite ya, box_x2 = Finite xb, box_y2 = Finite yb\<rparr>
      \<and> rect_width (frame_rect w) \<noteq> 0
    \<longrightarrow> (let container_scale = (xb - xa) / rect_width (frame_rect w);
            p = SHADOW_PADDING * container_scale * WindowScaleFactor w
        in overview_paddings SHADOW_PADDING (Finite container_scale) w = Finite p
           \<and> vfunc_allocate SHADOW_PADDING leaving_overview container_allocation
                preview_allocation (Some w) box
              = Some \<lparr>box_x1 = Finite (- p), box_y1 = Finite (- p),
                      box_x2 = Finite (- p + ((xb - xa) + 2 * p)),
                      box_y2 = Finite (- p + ((yb - ya) + 2 * p))\<rparr>))
   \<and> (\<not> is_attached_dialog w \<and> rect_width (frame_rect w) \<noteq> 0
        \<and> rect_height (frame_rect w) \<noteq> 0
    \<longrightarrow> (let fw = rect_width (frame_rect w); fh = rect_height (frame_rect w);
            scale = min (cw / fw) (ch / fh);
            p = SHADOW_PADDING * scale * WindowScaleFactor w;
            x = tx + (rect_width (buffer_rect w) - fw) / 2 * scale;
            y = ty + (rect_height (buffer_rect w) - fh) / 2 * scale
        in overview_paddings SHADOW_PADDING (Finite scale) w = Finite p
           \<and> (\<exists>b. vfunc_allocate_part0 SHADOW_PADDING
                     \<lparr>target_x = Finite tx, target_y = Finite ty, target_meta_window = Some w,
                      target_parent = Some (Finite cw, Finite ch)\<rparr> box = Some b
                   \<and> box_x1 b = Finite (x - p) \<and> box_y1 b = Finite (y - p))))
   \<and> (let w1 = \<lparr>frame_rect = \<lparr>rect_x = 0, rect_y = 0, rect_width = 800, rect_height = 600\<rparr>,
                 buffer_rect =
                   \<lparr>rect_x = - 10, rect_y = - 10, rect_width = 820, rect_height = 620\<rparr>,
                 is_attached_dialog = False, WindowScaleFactor = sf\<rparr>;
            p = SHADOW_PADDING * 0.5 * sf
        in vfunc_allocate SHADOW_PADDING False container_allocation
             \<lparr>box_x1 = Finite px, box_y1 = Finite py,
              box_x2 = Finite (px + 400), box_y2 = Finite (py + 300)\<rparr> (Some w1) box
           = Some \<lparr>box_x1 = Finite (- p), box_y1 = Finite (- p),
                   box_x2 = Finite (- p + (400 + 2 * p)),
                   box_y2 = Finite (- p + (300 + 2 * p))\<rparr>
         \<and> (\<exists>b. vfunc_allocate_part0 SHADOW_PADDING
                   \<lparr>target_x = Finite (- 5), target_y = Finite (- 5),
                    target_meta_window = Some w1,
                    target_parent = Some (Finite 400, Finite 300)\<rparr> box = Some b
                 \<and> box_x1 b = Finite (- p) \<and> box_y1 b = Finite (- p)))"
proof (intro conjI impI)
  assume h: "(if leaving_overview then container_allocation else preview_allocation)
        = \<lparr>box_x1 = Finite xa, box_y1 = Finite ya, box_x2 = Finite xb, box_y2 = Finite yb\<rparr>
      \<and> rect_width (frame_rect w) \<noteq> 0"
  then have a: "(if leaving_overview then container_allocation else preview_allocation)
        = \<lparr>box_x1 = Finite xa, box_y1 = Finite ya, box_x2 = Finite xb, box_y2 = Finite yb\<rparr>"
    and nz: "rect_width (frame_rect w) \<noteq> 0"
    by blast+
  show "let container_scale = (xb - xa) / rect_width (frame_rect w);
            p = SHADOW_PADDING * container_scale * WindowScaleFactor w
        in overview_paddings SHADOW_PADDING (Finite container_scale) w = Finite p
           \<and> vfunc_allocate SHADOW_PADDING leaving_overview container_allocation
                preview_allocation (Some w) box
              = Some \<lparr>box_x1 = Finite (- p), box_y1 = Finite (- p),
                      box_x2 = Finite (- p + ((xb - xa) + 2 * p)),
                      box_y2 = Finite (- p + ((yb - ya) + 2 * p))\<rparr>"
    unfolding Let_def
    using vfunc_allocate_finite [OF a nz, of SHADOW_PADDING box]
    by (simp add: overview_paddings_def)
next
  assume h: "\<not> is_attached_dialog w \<and> rect_width (frame_rect w) \<noteq> 0
        \<and> rect_height (frame_rect w) \<noteq> 0"
  then have a: "\<not> is_attached_dialog w" "rect_width (frame_rect w) \<noteq> 0"
    "rect_height (frame_rect w) \<noteq> 0"
    by blast+
  show "let fw = rect_width (frame_rect w); fh = rect_height (frame_rect w);
            scale = min (cw / fw) (ch / fh);
            p = SHADOW_PADDING * scale * WindowScaleFactor w;
            x = tx + (rect_width (buffer_rect w) - fw) / 2 * scale;
            y = ty + (rect_height (buffer_rect w) - fh) / 2 * scale
        in overview_paddings SHADOW_PADDING (Finite scale) w = Finite p
           \<and> (\<exists>b. vfunc_allocate_part0 SHADOW_PADDING
                     \<lparr>target_x = Finite tx, target_y = Finite ty, target_meta_window = Some w,
                      target_parent = Some (Finite cw, Finite ch)\<rparr> box = Some b
                   \<and> box_x1 b = Finite (x - p) \<and> box_y1 b = Finite (y - p))"
    unfolding Let_def
    using vfunc_allocate_part0_finite [OF a, of SHADOW_PADDING tx ty cw ch box]
    by (simp add: overview_paddings_def)
next
  show "let w1 = \<lparr>frame_rect = \<lparr>rect_x = 0, rect_y = 0, rect_width = 800, rect_height = 600\<rparr>,
                 buffer_rect =
                   \<lparr>rect_x = - 10, rect_y = - 10, rect_width = 820, rect_height = 620\<rparr>,
                 is_attached_dialog = False, WindowScaleFactor = sf\<rparr>;
            p = SHADOW_PADDING * 0.5 * sf
        in vfunc_allocate SHADOW_PADDING False container_allocation
             \<lparr>box_x1 = Finite px, box_y1 = Finite py,
              box_x2 = Finite (px + 400), box_y2 = Finite (py + 300)\<rparr> (Some w1) box
           = Some \<lparr>box_x1 = Finite (- p), box_y1 = Finite (- p),
                   box_x2 = Finite (- p + (400 + 2 * p)),
                   box_y2 = Finite (- p + (300 + 2 * p))\<rparr>
         \<and> (\<exists>b. vfunc_allocate_part0 SHADOW_PADDING
                   \<lparr>target_x = Finite (- 5), target_y = Finite (- 5),
                    target_meta_window = Some w1,
                    target_parent = Some (Finite 400, Finite 300)\<rparr> box = Some b
                 \<and> box_x1 b = Finite (- p) \<and> box_y1 b = Finite (- p))"
    by (simp add: vfunc_allocate_def vfunc_allocate_part0_def overview_paddings_def Let_def
          box_defs minus_number_def)
qed

theorem overview_box_formulas_witness:
  "rect_width (frame_rect
       \<lparr>frame_rect = \<lparr>rect_x = 0, rect_y = 0, rect_width = 800, rect_height = 600\<rparr>,
        buffer_rect = \<lparr>rect_x = - 10, rect_y = - 10, rect_width = 820, rect_height = 620\<rparr>,
        is_attached_dialog = False, WindowScaleFactor = 2\<rparr>) \<noteq> 0
   \<and> vfunc_allocate 80 True
        \<lparr>box_x1 = Finite 10, box_y1 = Finite 20, box_x2 = Finite 410, box_y2 = Finite 320\<rparr>
        \<lparr>box_x1 = Finite 0, box_y1 = Finite 0, box_x2 = Finite 0, box_y2 = Finite 0\<rparr>
        (Some \<lparr>frame_rect = \<lparr>rect_x = 0, rect_y = 0, rect_width = 800, rect_height = 600\<rparr>,
               buffer_rect =
                 \<lparr>rect_x = - 10, rect_y = - 10, rect_width = 820, rect_height = 620\<rparr>,
               is_attached_dialog = False, WindowScaleFactor = 2\<rparr>)
        \<lparr>box_x1 = Finite 1, box_y1 = Finite 2, box_x2 = Finite 3, box_y2 = Finite 4\<rparr>
      = Some \<lparr>box_x1 = Finite (- 80), box_y1 = Finite (- 80),
              box_x2 = Finite 480, box_y2 = Finite 380\<rparr>
   \<and> (\<exists>b. vfunc_allocate_part0 80
        \<lparr>target_x = Finite 0, target_y = Finite 0,
         target_meta_window = Some
           \<lparr>frame_rect = \<lparr>rect_x = 0, rect_y = 0, rect_width = 800, rect_height = 600\<rparr>,
            buffer_rect = \<lparr>rect_x = - 10, rect_y = - 10, rect_width = 820, rect_height = 620\<rparr>,
            is_attached_dialog = False, WindowScaleFactor = 2\<rparr>,
         target_parent = Some (Finite 400, Finite 300)\<rparr>
        \<lparr>box_x1 = Finite 1, box_y1 = Finite 2, box_x2 = Finite 3, box_y2 = Finite 4\<rparr> = Some b
      \<and> box_x1 b = Finite (- 75) \<and> box_y1 b = Finite (- 75))"
  using overview_box_formulas [where w =
       "\<lparr>frame_rect = \<lparr>rect_x = 0, rect_y = 0, rect_width = 800, rect_height = 600\<rparr>,
        buffer_rect = \<lparr>rect_x = - 10, rect_y = - 10, rect_width = 820, rect_height = 620\<rparr>,
        is_attached_dialog = False, WindowScaleFactor = 2\<rparr>"
      and SHADOW_PADDING = 80 and cw = 400 and ch = 300 and tx = 0 and ty = 0
      and leaving_overview = True
      and container_allocation =
        "\<lparr>box_x1 = Finite 10, box_y1 = Finite 20, box_x2 = Finite 410, box_y2 = Finite 320\<rparr>"
      and preview_allocation =
        "\<lparr>box_x1 = Finite 0, box_y1 = Finite 0, box_x2 = Finite 0, box_y2 = Finite 0\<rparr>"
      and xa = 10 and ya = 20 and xb = 410 and yb = 320 and sf = 1 and px = 0 and py = 0
      and box = "\<lparr>box_x1 = Finite 1, box_y1 = Finite 2, box_x2 = Finite 3, box_y2 = Finite 4\<rparr>"]
  by (simp add: Let_def)

text \<open>
  C10. The claim fails on \<^verbatim>\<open>part_000\<close>, whose \<^verbatim>\<open>vfunc_allocate\<close> takes the clone's offset
  \<open>x\<close> off the scaled width of the frame: a window of 50 by 50 whose clone sits at (475,0)
  in a container of 1000 by 50 (a wide dialog is attached to it), with scale factor 1 and
  \<open>SHADOW_PADDING = 80\<close>, gets the scale \<open>min (1000/50) (50/50) = 1\<close>, the padding 80, the
  origin (395,-80) and the size \<open>50 - 475 + 160 = -265\<close> by \<open>50 - 0 + 160 = 210\<close>: a box of
  negative width.
\<close>

theorem overview_box_part0_negative_width:
  "vfunc_allocate_part0 80
     \<lparr>target_x = Finite 475, target_y = Finite 0,
      target_meta_window = Some
        \<lparr>frame_rect = \<lparr>rect_x = 475, rect_y = 0, rect_width = 50, rect_height = 50\<rparr>,
         buffer_rect = \<lparr>rect_x = 475, rect_y = 0, rect_width = 50, rect_height = 50\<rparr>,
         is_attached_dialog = False, WindowScaleFactor = 1\<rparr>,
      target_parent = Some (Finite 1000, Finite 50)\<rparr>
     \<lparr>box_x1 = Finite 0, box_y1 = Finite 0, box_x2 = Finite 0, box_y2 = Finite 0\<rparr>
   = Some \<lparr>box_x1 = Finite 395, box_y1 = Finite (- 80),
           box_x2 = Finite 130, box_y2 = Finite 130\<rparr>
   \<and> get_width \<lparr>box_x1 = Finite 395, box_y1 = Finite (- 80),
                box_x2 = Finite 130, box_y2 = Finite 130\<rparr> = Finite (- 265)
   \<and> get_height \<lparr>box_x1 = Finite 395, box_y1 = Finite (- 80),
                box_x2 = Finite 130, box_y2 = Finite 130\<rparr> = Finite 210"
  by (simp add: vfunc_allocate_part0_def overview_paddings_def Let_def box_defs
        minus_number_def)

text \<open>
  What does hold of the three boxes. Each depends on the named inputs only, not on the
  box handed in. The padding is linear in the scale factor: multiplying the scale factor
  by \<open>k\<close> multiplies the padding by \<open>k\<close>. Width and height are not negative for the overview
  box of \<^verbatim>\<open>src/src/extension.ts\<close> when \<open>SHADOW_PADDING\<close> and the scale factor are not
  negative, the container box has finite corners in their order and the frame width is
  positive, and for the workspace-switch box when \<open>SHADOW_PADDING\<close>, the scale factor and
  the frame's size are not negative.
\<close>

lemma boxes_pure_linear:
  "vfunc_allocate SHADOW_PADDING leaving container_allocation preview_allocation meta_win box
     = vfunc_allocate SHADOW_PADDING leaving container_allocation preview_allocation meta_win box'"
  "vfunc_allocate_part0 SHADOW_PADDING target box
     = vfunc_allocate_part0 SHADOW_PADDING target box'"
  "overview_paddings SHADOW_PADDING (Finite scale) (w\<lparr>WindowScaleFactor := k * sf\<rparr>)
     = Finite k * overview_paddings SHADOW_PADDING (Finite scale) (w\<lparr>WindowScaleFactor := sf\<rparr>)"
  "workspace_paddings SHADOW_PADDING (w\<lparr>WindowScaleFactor := k * sf\<rparr>)
     = k * workspace_paddings SHADOW_PADDING (w\<lparr>WindowScaleFactor := sf\<rparr>)"
proof -
  show "vfunc_allocate SHADOW_PADDING leaving container_allocation preview_allocation
        meta_win box
     = vfunc_allocate SHADOW_PADDING leaving container_allocation preview_allocation meta_win box'"
    by (cases meta_win) (simp_all add: vfunc_allocate_def Let_def set_origin_def set_size_def)
  show "vfunc_allocate_part0 SHADOW_PADDING target box
     = vfunc_allocate_part0 SHADOW_PADDING target box'"
    by (simp add: vfunc_allocate_part0_def Let_def set_origin_def set_size_def
          split: option.splits prod.splits)
  show "overview_paddings SHADOW_PADDING (Finite scale) (w\<lparr>WindowScaleFactor := k * sf\<rparr>)
     = Finite k * overview_paddings SHADOW_PADDING (Finite scale) (w\<lparr>WindowScaleFactor := sf\<rparr>)"
    "workspace_paddings SHADOW_PADDING (w\<lparr>WindowScaleFactor := k * sf\<rparr>)
     = k * workspace_paddings SHADOW_PADDING (w\<lparr>WindowScaleFactor := sf\<rparr>)"
    by (simp_all add: overview_paddings_def workspace_paddings_def)
qed

lemma boxes_nonnegative:
  assumes "0 \<le> SHADOW_PADDING"
  shows "0 \<le> WindowScaleFactor w \<Longrightarrow> 0 < rect_width (frame_rect w)
     \<Longrightarrow> (if leaving then container_allocation else preview_allocation)
          = \<lparr>box_x1 = Finite xa, box_y1 = Finite ya, box_x2 = Finite xb, box_y2 = Finite yb\<rparr>
     \<Longrightarrow> xa \<le> xb \<Longrightarrow> ya \<le> yb
     \<Longrightarrow> \<exists>b wd ht. vfunc_allocate SHADOW_PADDING leaving container_allocation
                    preview_allocation (Some w) box = Some b
           \<and> get_width b = Finite wd \<and> get_height b = Finite ht \<and> 0 \<le> wd \<and> 0 \<le> ht"
    and "0 \<le> WindowScaleFactor (metaWindow (windowActor r))
     \<Longrightarrow> 0 \<le> rect_width (frame_rect (metaWindow (windowActor r)))
     \<Longrightarrow> 0 \<le> rect_height (frame_rect (metaWindow (windowActor r)))
     \<Longrightarrow> 0 \<le> geo_width (workspace_switch_box SHADOW_PADDING r)
         \<and> 0 \<le> geo_height (workspace_switch_box SHADOW_PADDING r)"
proof -
  show "\<exists>b wd ht. vfunc_allocate SHADOW_PADDING leaving container_allocation
                    preview_allocation (Some w) box = Some b
           \<and> get_width b = Finite wd \<and> get_height b = Finite ht \<and> 0 \<le> wd \<and> 0 \<le> ht"
    if h: "0 \<le> WindowScaleFactor w" "0 < rect_width (frame_rect w)"
      "(if leaving then container_allocation else preview_allocation)
          = \<lparr>box_x1 = Finite xa, box_y1 = Finite ya, box_x2 = Finite xb, box_y2 = Finite yb\<rparr>"
      "xa \<le> xb" "ya \<le> yb"
  proof -
    define p where "p = SHADOW_PADDING * ((xb - xa) / rect_width (frame_rect w))
                 * WindowScaleFactor w"
    have "0 \<le> (xb - xa) / rect_width (frame_rect w)"
      using h by simp
    then have p: "0 \<le> p"
      unfolding p_def using h assms by simp
    have nz: "rect_width (frame_rect w) \<noteq> 0"
      using h by simp
    have "vfunc_allocate SHADOW_PADDING leaving container_allocation preview_allocation
            (Some w) box
          = Some \<lparr>box_x1 = Finite (- p), box_y1 = Finite (- p),
                  box_x2 = Finite (- p + ((xb - xa) + 2 * p)),
                  box_y2 = Finite (- p + ((yb - ya) + 2 * p))\<rparr>"
      unfolding p_def by (rule vfunc_allocate_finite [OF h(3) nz])
    moreover have "get_width \<lparr>box_x1 = Finite (- p), box_y1 = Finite (- p),
                  box_x2 = Finite (- p + ((xb - xa) + 2 * p)),
                  box_y2 = Finite (- p + ((yb - ya) + 2 * p))\<rparr> = Finite ((xb - xa) + 2 * p)"
      "get_height \<lparr>box_x1 = Finite (- p), box_y1 = Finite (- p),
                  box_x2 = Finite (- p + ((xb - xa) + 2 * p)),
                  box_y2 = Finite (- p + ((yb - ya) + 2 * p))\<rparr> = Finite ((yb - ya) + 2 * p)"
      by (simp_all add: box_defs minus_number_def)
    moreover have "0 \<le> (xb - xa) + 2 * p" "0 \<le> (yb - ya) + 2 * p"
      using h p by simp_all
    ultimately show ?thesis by blast
  qed
  show "0 \<le> geo_width (workspace_switch_box SHADOW_PADDING r)
         \<and> 0 \<le> geo_height (workspace_switch_box SHADOW_PADDING r)"
    if h: "0 \<le> WindowScaleFactor (metaWindow (windowActor r))"
        "0 \<le> rect_width (frame_rect (metaWindow (windowActor r)))"
        "0 \<le> rect_height (frame_rect (metaWindow (windowActor r)))"
  proof -
    have "0 \<le> SHADOW_PADDING * WindowScaleFactor (metaWindow (windowActor r))"
      using h assms by simp
    then show ?thesis
      using h by (simp add: workspace_switch_box_def workspace_paddings_def Let_def)
  qed
qed

text \<open>
  Where the frame has the width 0 the overview code leaves the reals. In
  \<^verbatim>\<open>src/src/extension.ts\<close> the scale of a container 400 wide is \<^verbatim>\<open>Infinity\<close>, and so is the
  padding; in \<^verbatim>\<open>part_000\<close> the smaller of \<^verbatim>\<open>Infinity\<close> and \<open>300 / 600\<close> is the scale.
\<close>

lemma overview_box_zero_frame_width:
  "vfunc_allocate 80 False
     \<lparr>box_x1 = Finite 0, box_y1 = Finite 0, box_x2 = Finite 0, box_y2 = Finite 0\<rparr>
     \<lparr>box_x1 = Finite 0, box_y1 = Finite 0, box_x2 = Finite 400, box_y2 = Finite 300\<rparr>
     (Some \<lparr>frame_rect = \<lparr>rect_x = 0, rect_y = 0, rect_width = 0, rect_height = 600\<rparr>,
            buffer_rect = \<lparr>rect_x = 0, rect_y = 0, rect_width = 0, rect_height = 600\<rparr>,
            is_attached_dialog = False, WindowScaleFactor = 1\<rparr>)
     \<lparr>box_x1 = Finite 0, box_y1 = Finite 0, box_x2 = Finite 0, box_y2 = Finite 0\<rparr>
   = Some \<lparr>box_x1 = MinusInfinity, box_y1 = MinusInfinity, box_x2 = NaN, box_y2 = NaN\<rparr>"
  "vfunc_allocate_part0 80
     \<lparr>target_x = Finite 0, target_y = Finite 0,
      target_meta_window = Some
        \<lparr>frame_rect = \<lparr>rect_x = 0, rect_y = 0, rect_width = 0, rect_height = 600\<rparr>,
         buffer_rect = \<lparr>rect_x = 0, rect_y = 0, rect_width = 0, rect_height = 600\<rparr>,
         is_attached_dialog = False, WindowScaleFactor = 1\<rparr>,
      target_parent = Some (Finite 400, Finite 300)\<rparr>
     \<lparr>box_x1 = Finite 0, box_y1 = Finite 0, box_x2 = Finite 0, box_y2 = Finite 0\<rparr>
   = Some \<lparr>box_x1 = Finite (- 40), box_y1 = Finite (- 40),
           box_x2 = Finite 40, box_y2 = Finite 340\<rparr>"
  by (simp_all add: vfunc_allocate_def vfunc_allocate_part0_def overview_paddings_def Let_def
        box_defs minus_number_def infinity_of_def)


section \<open>The workspace switch: creation, teardown, restacking\<close>

text \<open>
  C6. In the preparation, the loop body creates a shadow clone for a record exactly when the
  window has a shadow and its rounded-corners effect is enabled: then one actor is created,
  a clone of the shadow with the geometry of the workspace switch, it becomes the
  \<^verbatim>\<open>_shadow_clone\<close> of the record's clone, its visibility is bound to the clone's, it is put
  under the clone, and the clone gets its two handlers; otherwise the state stays as it is. So the actors that one group iteration, and
  the whole method, create are, in their order, the clones of the shadows of the qualifying
  records, with the geometry of the workspace switch, and there are no others. Where the
  groups are built (no group or clone twice, the clones children of their groups), every
  qualifying record of every group has afterwards a new shadow clone of its window's
  shadow as its \<^verbatim>\<open>_shadow_clone\<close>, directly under its clone in the group, every other
  record has the \<^verbatim>\<open>_shadow_clone\<close> it had, and the group has as many more children as it
  has qualifying records. With 2 monitors of 2 groups of 3 windows, 2 of them qualifying
  in each group, a group iteration creates 2 shadow clones, every group has 2 more
  children, and 8 shadow clones are created in all.
\<close>

theorem shadow_clone_created_iff_wanted:
  "(wants_shadow r \<longleftrightarrow>
      rwc_shadow (windowActor r) \<noteq> None \<and> effect_enabled (windowActor r) = Some True)
   \<and> (if wants_shadow r
       then next_actor (prepare_record P ws r s) = Suc (next_actor s)
          \<and> clone_source (prepare_record P ws r s) (next_actor s) = rwc_shadow (windowActor r)
          \<and> geometry_of (prepare_record P ws r s) (next_actor s)
              = Some (workspace_switch_box P r)
          \<and> shadow_clone_of (prepare_record P ws r s) (clone r) = Some (next_actor s)
          \<and> visible_bound (prepare_record P ws r s)
              = visible_bound s @ [(clone r, next_actor s)]
          \<and> children (prepare_record P ws r s) ws =
              insert_child_below (next_actor s) (clone r) (children s ws)
          \<and> actor_handlers (prepare_record P ws r s)
              = actor_handlers s @
                [(clone r, next_handler_id s, NotifyTranslationZ (clone r) (next_actor s)),
                 (clone r, Suc (next_handler_id s),
                    CloneDestroy (clone r) (next_handler_id s) (Suc (next_handler_id s)))]
       else prepare_record P ws r s = s)
   \<and> next_actor (prepare_workspace P ws s) =
       next_actor s + length (filter wants_shadow (windowRecords s ws))
   \<and> map (clone_source (prepare_workspace P ws s))
         [next_actor s ..< next_actor (prepare_workspace P ws s)]
       = map (\<lambda>r. rwc_shadow (windowActor r)) (filter wants_shadow (windowRecords s ws))
   \<and> next_actor (prepareWorkspaceSwitch P monitors s) =
       next_actor s +
       (\<Sum>ws\<leftarrow>concat monitors. length (filter wants_shadow (windowRecords s ws)))
   \<and> map (clone_source (prepareWorkspaceSwitch P monitors s))
         [next_actor s ..< next_actor (prepareWorkspaceSwitch P monitors s)]
       = map (\<lambda>r. rwc_shadow (windowActor r))
           (filter wants_shadow (concat (map (windowRecords s) (concat monitors))))
   \<and> map (geometry_of (prepareWorkspaceSwitch P monitors s))
         [next_actor s ..< next_actor (prepareWorkspaceSwitch P monitors s)]
       = map (\<lambda>r. Some (workspace_switch_box P r))
           (filter wants_shadow (concat (map (windowRecords s) (concat monitors))))
   \<and> (session_built s monitors
      \<longrightarrow> (\<forall>ws \<in> set (concat monitors).
             length (children (prepareWorkspaceSwitch P monitors s) ws)
               = length (children s ws) + length (filter wants_shadow (windowRecords s ws))
             \<and> (\<forall>r \<in> set (windowRecords s ws).
                   if wants_shadow r
                   then (\<exists>sh. shadow_clone_of (prepareWorkspaceSwitch P monitors s) (clone r)
                                = Some sh
                           \<and> next_actor s \<le> sh
                           \<and> sh < next_actor (prepareWorkspaceSwitch P monitors s)
                           \<and> clone_source (prepareWorkspaceSwitch P monitors s) sh
                               = rwc_shadow (windowActor r)
                           \<and> geometry_of (prepareWorkspaceSwitch P monitors s) sh
                               = Some (workspace_switch_box P r)
                           \<and> immediately_below sh (clone r)
                                (children (prepareWorkspaceSwitch P monitors s) ws))
                   else shadow_clone_of (prepareWorkspaceSwitch P monitors s) (clone r)
                          = shadow_clone_of s (clone r))))
   \<and> (session_built s monitors \<and> length monitors = 2 \<and> (\<forall>m \<in> set monitors. length m = 2)
        \<and> (\<forall>ws \<in> set (concat monitors).
              length (windowRecords s ws) = 3
              \<and> length (filter wants_shadow (windowRecords s ws)) = 2)
      \<longrightarrow> (\<forall>ws \<in> set (concat monitors).
             next_actor (prepare_workspace P ws s) = next_actor s + 2
             \<and> length (children (prepareWorkspaceSwitch P monitors s) ws)
                 = length (children s ws) + 2)
          \<and> next_actor (prepareWorkspaceSwitch P monitors s) = next_actor s + 8)"
proof -
  let ?s' = "prepareWorkspaceSwitch P monitors s"
  have rec: "if wants_shadow r
       then next_actor (prepare_record P ws r s) = Suc (next_actor s)
          \<and> clone_source (prepare_record P ws r s) (next_actor s) = rwc_shadow (windowActor r)
          \<and> geometry_of (prepare_record P ws r s) (next_actor s)
              = Some (workspace_switch_box P r)
          \<and> shadow_clone_of (prepare_record P ws r s) (clone r) = Some (next_actor s)
          \<and> visible_bound (prepare_record P ws r s)
              = visible_bound s @ [(clone r, next_actor s)]
          \<and> children (prepare_record P ws r s) ws =
              insert_child_below (next_actor s) (clone r) (children s ws)
          \<and> actor_handlers (prepare_record P ws r s)
              = actor_handlers s @
                [(clone r, next_handler_id s, NotifyTranslationZ (clone r) (next_actor s)),
                 (clone r, Suc (next_handler_id s),
                    CloneDestroy (clone r) (next_handler_id s) (Suc (next_handler_id s)))]
       else prepare_record P ws r s = s"
    by (simp add: prepare_record_fields prepare_record_source prepare_record_handlers
          prepare_record_visible prepare_record_skip)
  have grp: "next_actor (prepare_workspace P ws s) =
       next_actor s + length (filter wants_shadow (windowRecords s ws))" for ws
    by (simp add: prepare_workspace_fields)
  have grp_src: "map (clone_source (prepare_workspace P ws s))
         [next_actor s ..< next_actor (prepare_workspace P ws s)]
       = map (\<lambda>r. rwc_shadow (windowActor r)) (filter wants_shadow (windowRecords s ws))"
    using prepare_workspace_created [of P ws s] by blast
  have ses: "next_actor ?s' =
       next_actor s +
       (\<Sum>ws\<leftarrow>concat monitors. length (filter wants_shadow (windowRecords s ws)))"
    by (simp add: prepareWorkspaceSwitch_groups fold_prepare_workspace_fields)
  have ses_src: "map (clone_source ?s') [next_actor s ..< next_actor ?s']
       = map (\<lambda>r. rwc_shadow (windowActor r))
           (filter wants_shadow (concat (map (windowRecords s) (concat monitors))))"
    and ses_geo: "map (geometry_of ?s') [next_actor s ..< next_actor ?s']
       = map (\<lambda>r. Some (workspace_switch_box P r))
           (filter wants_shadow (concat (map (windowRecords s) (concat monitors))))"
    using fold_prepare_workspace_created [of P "concat monitors" s]
    unfolding prepareWorkspaceSwitch_groups by blast+
  have built: "\<forall>ws \<in> set (concat monitors).
             length (children ?s' ws)
               = length (children s ws) + length (filter wants_shadow (windowRecords s ws))
             \<and> (\<forall>r \<in> set (windowRecords s ws).
                   if wants_shadow r
                   then (\<exists>sh. shadow_clone_of ?s' (clone r) = Some sh
                           \<and> next_actor s \<le> sh \<and> sh < next_actor ?s'
                           \<and> clone_source ?s' sh = rwc_shadow (windowActor r)
                           \<and> geometry_of ?s' sh = Some (workspace_switch_box P r)
                           \<and> immediately_below sh (clone r) (children ?s' ws))
                   else shadow_clone_of ?s' (clone r) = shadow_clone_of s (clone r))"
    if "session_built s monitors"
    using that unfolding prepareWorkspaceSwitch_groups session_built_def
    by (intro prepare_session_built) blast+
  have scen: "(\<forall>ws \<in> set (concat monitors).
             next_actor (prepare_workspace P ws s) = next_actor s + 2
             \<and> length (children ?s' ws) = length (children s ws) + 2)
          \<and> next_actor ?s' = next_actor s + 8"
    if h: "session_built s monitors \<and> length monitors = 2 \<and> (\<forall>m \<in> set monitors. length m = 2)
        \<and> (\<forall>ws \<in> set (concat monitors).
              length (windowRecords s ws) = 3
              \<and> length (filter wants_shadow (windowRecords s ws)) = 2)"
  proof -
    have two: "\<forall>ws \<in> set (concat monitors).
                 length (filter wants_shadow (windowRecords s ws)) = 2"
      using h by blast
    then have "(\<Sum>ws\<leftarrow>concat monitors. length (filter wants_shadow (windowRecords s ws)))
                 = 2 * length (concat monitors)"
      by (rule sum_list_const_on)
    moreover have "length (concat monitors) = 4"
    proof -
      obtain m1 m2 where m: "monitors = [m1, m2]"
        using h by (cases monitors; cases "tl monitors"; cases "tl (tl monitors)") auto
      with h show ?thesis by simp
    qed
    ultimately have eight: "next_actor ?s' = next_actor s + 8"
      by (simp add: ses)
    have b: "session_built s monitors" using h by blast
    have "next_actor (prepare_workspace P ws s) = next_actor s + 2
             \<and> length (children ?s' ws) = length (children s ws) + 2"
      if ws: "ws \<in> set (concat monitors)" for ws
    proof -
      have k: "length (filter wants_shadow (windowRecords s ws)) = 2"
        using two ws by (rule bspec)
      have "length (children ?s' ws)
              = length (children s ws) + length (filter wants_shadow (windowRecords s ws))"
        using built [OF b, THEN bspec, OF ws] by (rule conjunct1)
      then show ?thesis
        by (simp only: k grp)
    qed
    then have "\<forall>ws \<in> set (concat monitors).
             next_actor (prepare_workspace P ws s) = next_actor s + 2
             \<and> length (children ?s' ws) = length (children s ws) + 2"
      by (rule ballI)
    with eight show ?thesis by (rule conjI [rotated])
  qed
  have def: "wants_shadow r \<longleftrightarrow>
      rwc_shadow (windowActor r) \<noteq> None \<and> effect_enabled (windowActor r) = Some True"
    by (simp add: wants_shadow_def)
  show ?thesis
  proof (intro conjI impI)
    show "wants_shadow r \<longleftrightarrow>
      rwc_shadow (windowActor r) \<noteq> None \<and> effect_enabled (windowActor r) = Some True"
      by (rule def)
    show "if wants_shadow r
       then next_actor (prepare_record P ws r s) = Suc (next_actor s)
          \<and> clone_source (prepare_record P ws r s) (next_actor s) = rwc_shadow (windowActor r)
          \<and> geometry_of (prepare_record P ws r s) (next_actor s)
              = Some (workspace_switch_box P r)
          \<and> shadow_clone_of (prepare_record P ws r s) (clone r) = Some (next_actor s)
          \<and> visible_bound (prepare_record P ws r s)
              = visible_bound s @ [(clone r, next_actor s)]
          \<and> children (prepare_record P ws r s) ws =
              insert_child_below (next_actor s) (clone r) (children s ws)
          \<and> actor_handlers (prepare_record P ws r s)
              = actor_handlers s @
                [(clone r, next_handler_id s, NotifyTranslationZ (clone r) (next_actor s)),
                 (clone r, Suc (next_handler_id s),
                    CloneDestroy (clone r) (next_handler_id s) (Suc (next_handler_id s)))]
       else prepare_record P ws r s = s"
      by (rule rec)
    show "next_actor (prepare_workspace P ws s) =
       next_actor s + length (filter wants_shadow (windowRecords s ws))"
      by (rule grp)
    show "map (clone_source (prepare_workspace P ws s))
         [next_actor s ..< next_actor (prepare_workspace P ws s)]
       = map (\<lambda>r. rwc_shadow (windowActor r)) (filter wants_shadow (windowRecords s ws))"
      by (rule grp_src)
    show "next_actor ?s' =
       next_actor s +
       (\<Sum>ws\<leftarrow>concat monitors. length (filter wants_shadow (windowRecords s ws)))"
      by (rule ses)
    show "map (clone_source ?s') [next_actor s ..< next_actor ?s']
       = map (\<lambda>r. rwc_shadow (windowActor r))
           (filter wants_shadow (concat (map (windowRecords s) (concat monitors))))"
      by (rule ses_src)
    show "map (geometry_of ?s') [next_actor s ..< next_actor ?s']
       = map (\<lambda>r. Some (workspace_switch_box P r))
           (filter wants_shadow (concat (map (windowRecords s) (concat monitors))))"
      by (rule ses_geo)
  next
    assume "session_built s monitors"
    then show "\<forall>ws \<in> set (concat monitors).
             length (children ?s' ws)
               = length (children s ws) + length (filter wants_shadow (windowRecords s ws))
             \<and> (\<forall>r \<in> set (windowRecords s ws).
                   if wants_shadow r
                   then (\<exists>sh. shadow_clone_of ?s' (clone r) = Some sh
                           \<and> next_actor s \<le> sh \<and> sh < next_actor ?s'
                           \<and> clone_source ?s' sh = rwc_shadow (windowActor r)
                           \<and> geometry_of ?s' sh = Some (workspace_switch_box P r)
                           \<and> immediately_below sh (clone r) (children ?s' ws))
                   else shadow_clone_of ?s' (clone r) = shadow_clone_of s (clone r))"
      by (rule built)
  next
    assume h: "session_built s monitors \<and> length monitors = 2
        \<and> (\<forall>m \<in> set monitors. length m = 2)
        \<and> (\<forall>ws \<in> set (concat monitors).
              length (windowRecords s ws) = 3
              \<and> length (filter wants_shadow (windowRecords s ws)) = 2)"
    show "\<forall>ws \<in> set (concat monitors).
             next_actor (prepare_workspace P ws s) = next_actor s + 2
             \<and> length (children ?s' ws) = length (children s ws) + 2"
      using scen [OF h] by (rule conjunct1)
    show "next_actor ?s' = next_actor s + 8"
      using scen [OF h] by (rule conjunct2)
  qed
qed

text \<open>
  The example session has 2 monitors of 2 groups of 3 windows; the first and the third
  window of each group qualify. The 8 actors created are the clones of their shadows, and
  group 1 has 5 children afterwards.
\<close>

theorem shadow_clone_created_iff_wanted_witness:
  "session_built example_state [[1, 2], [3, 4]]
   \<and> length [[1, 2], [3, 4::actor]] = 2
   \<and> length (windowRecords example_state 1) = 3
   \<and> length (filter wants_shadow (windowRecords example_state 1)) = 2
   \<and> next_actor (prepare_workspace 80 1 example_state) = 102
   \<and> length (children (prepareWorkspaceSwitch 80 [[1, 2], [3, 4]] example_state) 1) = 5
   \<and> next_actor (prepareWorkspaceSwitch 80 [[1, 2], [3, 4]] example_state) = 108
   \<and> map (clone_source (prepareWorkspaceSwitch 80 [[1, 2], [3, 4]] example_state))
        [100 ..< 108]
      = [Some 51, Some 71, Some 52, Some 72, Some 53, Some 73, Some 54, Some 74]"
proof -
  have b: "session_built example_state [[1, 2], [3, 4]]"
    by (simp add: session_built_def group_built_def example_state_def example_records_def)
  have h: "length [[1, 2], [3, 4::actor]] = 2 \<and> (\<forall>m \<in> set [[1, 2], [3, 4::actor]]. length m = 2)
        \<and> (\<forall>ws \<in> set (concat [[1, 2], [3, 4]]).
              length (windowRecords example_state ws) = 3
              \<and> length (filter wants_shadow (windowRecords example_state ws)) = 2)"
    by (simp add: example_state_def example_records_def example_window_def wants_shadow_def)
  have n: "next_actor example_state = 100" "length (children example_state 1) = 3"
    by (simp_all add: example_state_def example_records_def)
  have w: "map (\<lambda>r. rwc_shadow (windowActor r))
             (filter wants_shadow
                (concat (map (windowRecords example_state) (concat [[1, 2], [3, 4]]))))
           = [Some 51, Some 71, Some 52, Some 72, Some 53, Some 73, Some 54, Some 74]"
    by (simp add: example_state_def example_records_def example_window_def wants_shadow_def)
  note t = shadow_clone_created_iff_wanted [where P = 80 and s = example_state
      and monitors = "[[1, 2], [3, 4]]" and ws = 1
      and r = "\<lparr>windowActor = example_window (Some 51) (Some True),
                 clone = 10, clone_x = 100, clone_y = 50\<rparr>"]
  note t5 = t [THEN conjunct2, THEN conjunct2, THEN conjunct2, THEN conjunct2, THEN conjunct2]
  have c: "(\<forall>ws \<in> set (concat [[1, 2], [3, 4]]).
             next_actor (prepare_workspace 80 ws example_state) = next_actor example_state + 2
             \<and> length (children (prepareWorkspaceSwitch 80 [[1, 2], [3, 4]] example_state) ws)
                 = length (children example_state ws) + 2)
          \<and> next_actor (prepareWorkspaceSwitch 80 [[1, 2], [3, 4]] example_state)
              = next_actor example_state + 8"
    using t5 [THEN conjunct2, THEN conjunct2, THEN conjunct2, THEN mp, OF conjI, OF b h] .
  have "map (clone_source (prepareWorkspaceSwitch 80 [[1, 2], [3, 4]] example_state))
         [next_actor example_state
            ..< next_actor (prepareWorkspaceSwitch 80 [[1, 2], [3, 4]] example_state)]
       = map (\<lambda>r. rwc_shadow (windowActor r))
           (filter wants_shadow
              (concat (map (windowRecords example_state) (concat [[1, 2], [3, 4]]))))"
    using t5 by (rule conjunct1)
  with c n have src: "map (clone_source (prepareWorkspaceSwitch 80 [[1, 2], [3, 4]] example_state))
         [100 ..< 108]
       = [Some 51, Some 71, Some 52, Some 72, Some 53, Some 73, Some 54, Some 74]"
    by (simp only: w) simp
  from c n have "next_actor (prepare_workspace 80 1 example_state) = 102"
    "length (children (prepareWorkspaceSwitch 80 [[1, 2], [3, 4]] example_state) 1) = 5"
    "next_actor (prepareWorkspaceSwitch 80 [[1, 2], [3, 4]] example_state) = 108"
    by simp_all
  with b h src show ?thesis by simp
qed

text \<open>
  C7. The claim fails where \<^verbatim>\<open>_prepareWorkspaceSwitch\<close> runs a second time before the
  session finishes; the patched method has no test against it, and loops over the records
  again. In the example session with the one group 1 the first run creates the shadow
  clones 100 and 101 for the clones 10 and 12. The second run creates 102 and 103 and
  overwrites the \<^verbatim>\<open>_shadow_clone\<close> of 10 and of 12, the only reference the loops of
  \<^verbatim>\<open>_finishWorkspaceSwitch\<close> follow: they destroy 103 and 102 and hand the original method
  a state in which 100 and 101 are not destroyed and still are children of the group. The
  two handlers of \<^verbatim>\<open>restacked\<close> are still connected then; the \<^verbatim>\<open>destroy\<close> handlers of the
  group disconnect them when the teardown destroys the group.
\<close>

theorem finish_leaves_overwritten_shadow_clones:
  "example_prepared_twice
     = prepareWorkspaceSwitch 80 [[1]] (prepareWorkspaceSwitch 80 [[1]] example_state)
   \<and> children example_prepared_once 1 = [100, 10, 11, 101, 12]
   \<and> map (shadow_clone_of example_prepared_once) [10, 11, 12] = [Some 100, None, Some 101]
   \<and> children example_prepared_twice 1 = [100, 102, 10, 11, 101, 103, 12]
   \<and> map (clone_source example_prepared_twice) [100, 101, 102, 103]
       = [Some 51, Some 71, Some 51, Some 71]
   \<and> map (shadow_clone_of example_prepared_twice) [10, 11, 12] = [Some 102, None, Some 103]
   \<and> destroyed example_prepared_twice = []
   \<and> destroyed (finish_loops [[1]] example_prepared_twice) = [103, 102]
   \<and> children (finish_loops [[1]] example_prepared_twice) 1 = [100, 10, 11, 101, 12]
   \<and> map (shadow_clone_of (finish_loops [[1]] example_prepared_twice)) [10, 11, 12]
       = [None, None, None]
   \<and> faults (finish_loops [[1]] example_prepared_twice) = []
   \<and> display_handlers (finish_loops [[1]] example_prepared_twice)
       = [(1, Restacked 1), (7, Restacked 1)]
   \<and> display_handlers
        (finishWorkspaceSwitch (default_teardown [[1]]) [[1]] example_prepared_twice) = []"
proof -
  note f1 = example_prepared_once_fields
  note f2 = example_prepared_twice_fields
  define s3 where "s3 = finish_loops [[1]] example_prepared_twice"
  have a: "destroyed s3 = [103, 102]"
    and b: "children s3 1 = [100, 10, 11, 101, 12]"
    and c: "map (shadow_clone_of s3) [10, 11, 12] = [None, None, None]"
    and d: "faults s3 = []"
    unfolding s3_def using f2(4)
    by (simp_all add: finish_loops_def finish_workspace_def finish_record_def actor_destroy_def
          Let_def f2(1) f2(3) [simplified] f2(6) f2(7) example_records_def)
  have dh: "display_handlers s3 = [(1, Restacked 1), (7, Restacked 1)]"
    and ah: "actor_handlers s3 = actor_handlers example_prepared_twice"
    unfolding s3_def finish_loops_groups
    by (simp_all only: fold_finish_workspace_fields f2(8))
  have e: "display_handlers (default_teardown [[1]] s3) = []"
    by (simp add: default_teardown_def emit_destroy_def run_actor_handler_def
          is_destroy_handler_def display_disconnect_def actor_disconnect_def ah f2(9) dh)
  show ?thesis
    using f1(3) f1(4) f2(3) f2(4) f2(5) f2(6) a b c d dh e
    by (simp only: example_prepared_twice_def example_prepared_once_def s3_def
          finishWorkspaceSwitch_def simp_thms)
qed

text \<open>
  Where the preparation ran once, from a ready state, the loops do destroy what it created:
  after any number of restack events, they leave every actor created in the preparation
  destroyed and a child of no actor, and no clone of a record with a \<^verbatim>\<open>_shadow_clone\<close>;
  the original method runs on that state.
\<close>

lemma finish_destroys_prepared_once:
  assumes ready: "session_ready s0 monitors"
    and events: "restack_event\<^sup>*\<^sup>* (prepareWorkspaceSwitch P monitors s0) s"
  shows "finishWorkspaceSwitch orig monitors s = orig (finish_loops monitors s)
   \<and> (\<forall>a. next_actor s0 \<le> a \<and> a < next_actor (prepareWorkspaceSwitch P monitors s0) \<longrightarrow>
          a \<in> set (destroyed (finish_loops monitors s))
          \<and> (\<forall>p. a \<notin> set (children (finish_loops monitors s) p)))
   \<and> (\<forall>ws \<in> set (concat monitors). \<forall>r \<in> set (windowRecords s ws).
          shadow_clone_of (finish_loops monitors s) (clone r) = None)"
proof -
  let ?gs = "concat monitors"
  let ?s1 = "prepareWorkspaceSwitch P monitors s0"
  let ?s2 = "finish_loops monitors s"
  note p = prepared_session [OF ready, of P]
  have rest1: "\<forall>e \<in> set (display_handlers ?s1). is_restacked (snd e)"
    using p(1) by (simp add: session_ok_def)
  have same: "same_session ?s1 s"
    using events rest1 by (rule restack_events_same)
  have wr: "windowRecords s = windowRecords s0"
    and sc: "shadow_clone_of s = shadow_clone_of ?s1"
    and de: "destroyed s = destroyed s0"
    using same
    by (simp_all add: same_session_def prepareWorkspaceSwitch_groups fold_prepare_workspace_fields)
  have old: "\<forall>a \<in> set (destroyed s0). a < next_actor s0"
    using ready unfolding session_ready_def by blast
  have created: "a \<in> set (destroyed ?s2) \<and> (\<forall>p. a \<notin> set (children ?s2 p))"
    if a: "next_actor s0 \<le> a \<and> a < next_actor ?s1" for a
  proof -
    from p(3) a obtain ws r where ws: "ws \<in> set ?gs" and r: "r \<in> set (windowRecords s0 ws)"
      and ref: "shadow_clone_of ?s1 (clone r) = Some a" by blast
    have "clone r \<in> clone ` (\<Union>ws \<in> set ?gs. set (windowRecords s ws))"
      using ws r by (auto simp: wr)
    then have d: "a \<in> set (destroyed ?s2)"
      unfolding finish_loops_groups
      using ref by (intro fold_finish_workspace_destroys [of s "clone r"]) (simp_all add: sc)
    have "a \<notin> set (destroyed s)"
      using old a by (auto simp: de)
    then have "gone a s" by (simp add: gone_def)
    then have "gone a ?s2"
      unfolding finish_loops_groups by (rule fold_finish_workspace_gone)
    with d show ?thesis by (simp add: gone_def)
  qed
  have cleared: "\<forall>ws \<in> set ?gs. \<forall>r \<in> set (windowRecords s ws).
          shadow_clone_of ?s2 (clone r) = None"
    unfolding finish_loops_groups by (auto simp: fold_finish_workspace_fields)
  show ?thesis
    using created cleared by (simp add: finishWorkspaceSwitch_def)
qed

text \<open>
  C8. The claim fails where \<^verbatim>\<open>_prepareWorkspaceSwitch\<close> runs a second time before the
  session finishes. In the example session with the one group 1 the second run puts the
  new shadow clone 102 between the clone 10 and its first shadow clone 100, which is alive
  and no longer directly under its host. The handlers of \<^verbatim>\<open>restacked\<close> move the shadow
  clones that \<^verbatim>\<open>_shadow_clone\<close> refers to, 102 and 103, and never 100 and 101: after a
  restack event that reverses the children of the group, 100 is above its host 10 and 101
  is above its host 12.
\<close>

theorem restack_leaves_overwritten_shadow_clones:
  "example_prepared_twice
     = prepareWorkspaceSwitch 80 [[1]] (prepareWorkspaceSwitch 80 [[1]] example_state)
   \<and> children example_prepared_twice 1 = [100, 102, 10, 11, 101, 103, 12]
   \<and> map (clone_source example_prepared_twice) [100, 101, 102, 103]
       = [Some 51, Some 71, Some 51, Some 71]
   \<and> map (shadow_clone_of example_prepared_twice) [10, 11, 12] = [Some 102, None, Some 103]
   \<and> destroyed example_prepared_twice = []
   \<and> display_handlers example_prepared_twice = [(1, Restacked 1), (7, Restacked 1)]
   \<and> restack_event example_prepared_twice
        (emit_restacked
           (example_prepared_twice
              \<lparr>children := \<lambda>ws. rev (children example_prepared_twice ws)\<rparr>))
   \<and> children
        (emit_restacked
           (example_prepared_twice
              \<lparr>children := \<lambda>ws. rev (children example_prepared_twice ws)\<rparr>)) 1
       = [103, 12, 101, 11, 102, 10, 100]
   \<and> destroyed
        (emit_restacked
           (example_prepared_twice
              \<lparr>children := \<lambda>ws. rev (children example_prepared_twice ws)\<rparr>)) = []"
proof -
  note f2 = example_prepared_twice_fields
  let ?t = "example_prepared_twice\<lparr>children := \<lambda>ws. rev (children example_prepared_twice ws)\<rparr>"
  have ev: "restack_event example_prepared_twice (emit_restacked ?t)"
    by (rule restack_event.restack) simp
  have "children (emit_restacked ?t) 1 = [103, 12, 101, 11, 102, 10, 100]"
    and "destroyed (emit_restacked ?t) = []"
    using f2(4)
    by (simp_all add: emit_restacked_def run_display_handler_def restack_record_def
          set_child_below_sibling_def f2(1) f2(3) [simplified] f2(6) f2(8) example_records_def)
  with ev show ?thesis
    using f2(3) f2(4) f2(5) f2(6) f2(8)
    by (simp only: example_prepared_twice_def example_prepared_once_def simp_thms)
qed

text \<open>
  Where the preparation ran once, from a ready state, the handlers of \<^verbatim>\<open>restacked\<close> do keep
  the order: after any sequence of restack events every shadow clone that a clone of a
  record carries is a child of the record's group and is stacked directly under that
  clone.
\<close>

lemma restacks_keep_prepared_once:
  assumes "session_ready s0 monitors"
    and "restack_event\<^sup>*\<^sup>* (prepareWorkspaceSwitch P monitors s0) s"
    and "ws \<in> set (concat monitors)" and "r \<in> set (windowRecords s ws)"
    and "shadow_clone_of s (clone r) = Some sh"
  shows "immediately_below sh (clone r) (children s ws) \<and> sh \<in> set (children s ws)"
proof -
  have "\<forall>ws \<in> set (concat monitors). shadows_stacked s ws"
    using restack_events_session [OF assms(2) prepared_session(1) [OF assms(1)]
        prepared_session(2) [OF assms(1)]]
    by simp
  with assms(3) have "shadows_stacked s ws" by blast
  with assms(4) assms(5) have "immediately_below sh (clone r) (children s ws)"
    by (auto simp: shadows_stacked_def split: option.splits)
  then show ?thesis
    using immediately_below_in_set by blast
qed

text \<open>
  C9. Running the destroy steps a second time changes nothing: the loop body of
  \<^verbatim>\<open>_finishWorkspaceSwitch\<close> on a record whose shadow clone it has destroyed, the three
  loops on a session they have finished, and the \<^verbatim>\<open>destroy\<close> signal of a clone or group
  whose handlers have run (they have disconnected themselves). The state after the second
  run is the state after the first, so no actor is destroyed twice and no handler is
  disconnected twice.
\<close>

theorem destroy_cascade_idempotent:
  "finish_record r (finish_record r s) = finish_record r s
   \<and> finish_loops monitors (finish_loops monitors s) = finish_loops monitors s
   \<and> (handlers_consistent s \<longrightarrow> emit_destroy c (emit_destroy c s) = emit_destroy c s)"
proof -
  have "shadow_clone_of (finish_record r s) (clone r) = None"
    by (simp add: finish_record_fields)
  then have "finish_record r (finish_record r s) = finish_record r s"
    by (rule finish_record_none)
  then show ?thesis
    by (simp add: finish_loops_idem emit_destroy_idem)
qed

text \<open>
  In the example session with the one group 1, the first \<^verbatim>\<open>destroy\<close> of the clone 10
  disconnects its two handlers without a fault, and the second one changes nothing.
\<close>

theorem destroy_cascade_idempotent_witness:
  "handlers_consistent (prepareWorkspaceSwitch 80 [[1]] example_state)
   \<and> actor_handlers (prepareWorkspaceSwitch 80 [[1]] example_state) =
       [(1, 2, WorkspaceDestroy 1 1 2), (10, 3, NotifyTranslationZ 10 100),
        (10, 4, CloneDestroy 10 3 4), (12, 5, NotifyTranslationZ 12 101),
        (12, 6, CloneDestroy 12 5 6)]
   \<and> actor_handlers (emit_destroy 10 (prepareWorkspaceSwitch 80 [[1]] example_state)) =
       [(1, 2, WorkspaceDestroy 1 1 2), (12, 5, NotifyTranslationZ 12 101),
        (12, 6, CloneDestroy 12 5 6)]
   \<and> faults (emit_destroy 10 (prepareWorkspaceSwitch 80 [[1]] example_state)) = []
   \<and> emit_destroy 10 (emit_destroy 10 (prepareWorkspaceSwitch 80 [[1]] example_state))
       = emit_destroy 10 (prepareWorkspaceSwitch 80 [[1]] example_state)"
proof -
  let ?s1 = "prepareWorkspaceSwitch 80 [[1]] example_state"
  have ah: "actor_handlers ?s1 =
       [(1, 2, WorkspaceDestroy 1 1 2), (10, 3, NotifyTranslationZ 10 100),
        (10, 4, CloneDestroy 10 3 4), (12, 5, NotifyTranslationZ 12 101),
        (12, 6, CloneDestroy 12 5 6)]"
    by code_simp
  have c: "handlers_consistent ?s1"
    unfolding handlers_consistent_def by (subst ah) simp
  have ah2: "actor_handlers (emit_destroy 10 ?s1) =
       [(1, 2, WorkspaceDestroy 1 1 2), (12, 5, NotifyTranslationZ 12 101),
        (12, 6, CloneDestroy 12 5 6)]"
    by code_simp
  have f: "faults (emit_destroy 10 ?s1) = []"
    by code_simp
  from destroy_cascade_idempotent [where s = ?s1 and c = 10] c
  have "emit_destroy 10 (emit_destroy 10 ?s1) = emit_destroy 10 ?s1" by blast
  with c ah ah2 f show ?thesis by simp
qed

section \<open>The overview: creation, attached dialogs, teardown\<close>




text \<open>
  C4, as stated, fails on \<^verbatim>\<open>part_000\<close>, where the test for the dialog calls is commented
  out: for an attached dialog with rounded corners and the shadow 21, \<^verbatim>\<open>_addWindow\<close>
  creates the clone 100 of the dialog and the shadow clone 101 under it.
\<close>

theorem attached_dialog_part0_counterexample:
  "is_attached_dialog (get_meta_window (example_overview_window True))
   \<and> rounded_shadow (example_overview_window True) = Some 21
   \<and> ov_children (addWindow_part0 example_preview (example_overview_window True)
         (Some example_dialog_stack) example_overview) 2 = [101, 100]
   \<and> ov_clone_source (addWindow_part0 example_preview (example_overview_window True)
         (Some example_dialog_stack) example_overview) 100 = Some 20
   \<and> ov_shadow_target (addWindow_part0 example_preview (example_overview_window True)
         (Some example_dialog_stack) example_overview) 101 = Some 100
   \<and> shadow_clones (addWindow_part0 example_preview (example_overview_window True)
         (Some example_dialog_stack) example_overview) 2 21 = [101]"
  by code_simp

text \<open>
  C4, amended. In \<^verbatim>\<open>src/src/extension.ts\<close> a call of \<^verbatim>\<open>_addWindow\<close> whose stack trace names
  \<^verbatim>\<open>_updateAttachedDialogs\<close> or \<^verbatim>\<open>addDialog\<close> does what the shell's method does and no
  more: no shadow clone is created. In \<^verbatim>\<open>part_000\<close> the allocation of a shadow clone
  whose window is an attached dialog does nothing, but the shadow clone itself is created
  and added for an attached dialog as for any other window.
\<close>

theorem attached_dialog_overview:
  "(stack = Some st
      \<and> (indexOf st ''_updateAttachedDialogs'' \<noteq> - 1 \<or> indexOf st ''addDialog'' \<noteq> - 1)
    \<longrightarrow> addWindow this window stack s = orig_add_window this window s
        \<and> ov_shadow_target (addWindow this window stack s) = ov_shadow_target s)
   \<and> (is_attached_dialog meta_win
    \<longrightarrow> vfunc_allocate_part0 SHADOW_PADDING
          \<lparr>target_x = tx, target_y = ty, target_meta_window = Some meta_win,
           target_parent = parent\<rparr> box = None)
   \<and> (is_attached_dialog (get_meta_window window) \<and> stack = Some st
      \<and> window_id window \<notin> fst ` set (ov_layout s (window_container this))
      \<and> rounded_shadow window = Some sh \<and> ShouldHasRoundedCorners window
    \<longrightarrow> ov_shadow_target (addWindow_part0 this window stack s) (Suc (ov_next_actor s))
          = Some (ov_next_actor s)
        \<and> ov_clone_source (addWindow_part0 this window stack s) (Suc (ov_next_actor s)) = Some sh
        \<and> Suc (ov_next_actor s)
            \<in> set (ov_children (addWindow_part0 this window stack s) (window_container this)))"
proof (intro conjI impI)
  assume "stack = Some st
      \<and> (indexOf st ''_updateAttachedDialogs'' \<noteq> - 1 \<or> indexOf st ''addDialog'' \<noteq> - 1)"
  then have eq: "addWindow this window stack s = orig_add_window this window s"
    by (intro addWindow_guarded) blast
  then show "addWindow this window stack s = orig_add_window this window s" .
  show "ov_shadow_target (addWindow this window stack s) = ov_shadow_target s"
    by (simp add: eq orig_add_window_fields)
next
  assume "is_attached_dialog meta_win"
  then show "vfunc_allocate_part0 SHADOW_PADDING
          \<lparr>target_x = tx, target_y = ty, target_meta_window = Some meta_win,
           target_parent = parent\<rparr> box = None"
    by (simp add: vfunc_allocate_part0_def split: option.splits)
next
  assume h: "is_attached_dialog (get_meta_window window) \<and> stack = Some st
      \<and> window_id window \<notin> fst ` set (ov_layout s (window_container this))
      \<and> rounded_shadow window = Some sh \<and> ShouldHasRoundedCorners window"
  then have a: "window_id window \<notin> fst ` set (ov_layout s (window_container this))"
    "stack = Some st" "rounded_shadow window = Some sh" "ShouldHasRoundedCorners window"
    by blast+
  note c = addWindow_part0_creates [OF a refl refl refl]
  show "ov_shadow_target (addWindow_part0 this window stack s) (Suc (ov_next_actor s))
          = Some (ov_next_actor s)"
    by (simp add: c(2))
  show "ov_clone_source (addWindow_part0 this window stack s) (Suc (ov_next_actor s)) = Some sh"
    by (simp add: c(3))
  show "Suc (ov_next_actor s)
            \<in> set (ov_children (addWindow_part0 this window stack s) (window_container this))"
    by (simp add: c(1) set_insert_child_below)
qed

text \<open>
  The example: the call from \<^verbatim>\<open>addDialog\<close> in the one version, the dialog's shadow clone
  and its allocation in the other.
\<close>

theorem attached_dialog_overview_witness:
  "indexOf example_dialog_stack ''addDialog'' \<noteq> - 1
   \<and> addWindow example_preview (example_overview_window True) (Some example_dialog_stack)
        example_overview
      = orig_add_window example_preview (example_overview_window True) example_overview
   \<and> is_attached_dialog (get_meta_window (example_overview_window True))
   \<and> vfunc_allocate_part0 80
        \<lparr>target_x = Finite 0, target_y = Finite 0,
         target_meta_window = Some (get_meta_window (example_overview_window True)),
         target_parent = Some (Finite 400, Finite 300)\<rparr>
        \<lparr>box_x1 = Finite 0, box_y1 = Finite 0, box_x2 = Finite 0, box_y2 = Finite 0\<rparr> = None
   \<and> ov_shadow_target (addWindow_part0 example_preview (example_overview_window True)
        (Some example_dialog_stack) example_overview) 101 = Some 100"
proof -
  have i: "indexOf example_dialog_stack ''addDialog'' \<noteq> - 1"
    by code_simp
  have d: "is_attached_dialog (get_meta_window (example_overview_window True))"
    "rounded_shadow (example_overview_window True) = Some 21"
    "ShouldHasRoundedCorners (example_overview_window True)"
    by (simp_all add: example_overview_window_def)
  have n: "window_id (example_overview_window True)
             \<notin> fst ` set (ov_layout example_overview (window_container example_preview))"
    "ov_next_actor example_overview = 100"
    by (simp_all add: example_overview_def example_preview_def)
  note t = attached_dialog_overview [where stack = "Some example_dialog_stack"
      and st = example_dialog_stack and window = "example_overview_window True"
      and this = example_preview and s = example_overview and sh = 21
      and meta_win = "get_meta_window (example_overview_window True)"
      and SHADOW_PADDING = 80 and tx = "Finite 0" and ty = "Finite 0"
      and parent = "Some (Finite 400, Finite 300)"
      and box = "\<lparr>box_x1 = Finite 0, box_y1 = Finite 0, box_x2 = Finite 0, box_y2 = Finite 0\<rparr>"]
  from t i have a: "addWindow example_preview (example_overview_window True)
        (Some example_dialog_stack) example_overview
      = orig_add_window example_preview (example_overview_window True) example_overview"
    by blast
  from t d(1) have b: "vfunc_allocate_part0 80
        \<lparr>target_x = Finite 0, target_y = Finite 0,
         target_meta_window = Some (get_meta_window (example_overview_window True)),
         target_parent = Some (Finite 400, Finite 300)\<rparr>
        \<lparr>box_x1 = Finite 0, box_y1 = Finite 0, box_x2 = Finite 0, box_y2 = Finite 0\<rparr> = None"
    by blast
  from t d n(1) have "ov_shadow_target (addWindow_part0 example_preview
        (example_overview_window True) (Some example_dialog_stack) example_overview)
        (Suc (ov_next_actor example_overview)) = Some (ov_next_actor example_overview)"
    by blast
  then have c: "ov_shadow_target (addWindow_part0 example_preview (example_overview_window True)
        (Some example_dialog_stack) example_overview) 101 = Some 100"
    by (simp add: n(2))
  from i a d(1) b c show ?thesis by blast
qed




end
